theory Spec2Isabelle
  imports Main "HOL-Library.Word"
begin

section \<open>JavaScript strings and numbers\<close>

text \<open>
  A JavaScript string is a sequence of UTF-16 code units, and every index, length and
  character test of the program counts code units. A string literal of the source is
  written \<open>js ''...''\<close>.

  The numbers of the program are line numbers, column numbers and string offsets. They are
  modelled as mathematical integers (\<open>int\<close>, \<open>nat\<close> for offsets into a string), which
  is what a JavaScript Number is on the safe-integer range.
\<close>

type_synonym jschar = "16 word"
type_synonym jsstring = "jschar list"

abbreviation js :: "string \<Rightarrow> jsstring" where
  "js s \<equiv> map of_char s"

text \<open>The regular-expression class \<open>\w\<close>: \<open>[A-Za-z0-9_]\<close>.\<close>

definition isWordChar :: "jschar \<Rightarrow> bool" where
  "isWordChar c =
     ((of_char CHR ''a'' \<le> c \<and> c \<le> of_char CHR ''z'') \<or>
      (of_char CHR ''A'' \<le> c \<and> c \<le> of_char CHR ''Z'') \<or>
      (of_char CHR ''0'' \<le> c \<and> c \<le> of_char CHR ''9'') \<or>
      c = of_char CHR ''_'')"

text \<open>
  ECMAScript's WhiteSpace and LineTerminator code points: the class \<open>\s\<close> of a regular
  expression, and what \<open>parseInt\<close> and \<open>String.prototype.trim\<close> strip.
\<close>

definition isWhiteSpace :: "jschar \<Rightarrow> bool" where
  "isWhiteSpace c =
     (c = 0x0009 \<or> c = 0x000A \<or> c = 0x000B \<or> c = 0x000C \<or> c = 0x000D \<or>
      c = 0x0020 \<or> c = 0x00A0 \<or> c = 0x1680 \<or> (0x2000 \<le> c \<and> c \<le> 0x200A) \<or>
      c = 0x2028 \<or> c = 0x2029 \<or> c = 0x202F \<or> c = 0x205F \<or> c = 0x3000 \<or>
      c = 0xFEFF)"

definition isDigit :: "jschar \<Rightarrow> bool" where
  "isDigit c = (of_char CHR ''0'' \<le> c \<and> c \<le> of_char CHR ''9'')"

definition digitVal :: "jschar \<Rightarrow> nat" where
  "digitVal c = unat c - 48"

definition digitChar :: "nat \<Rightarrow> jschar" where
  "digitChar d = of_nat (48 + d)"

text \<open>
  \<open>s.split(sep)\<close> for a separator of one code unit; \<open>"".split(":")\<close> is \<open>[""]\<close>.
  \<open>cur\<close> is the field being read.
\<close>

fun splitFrom :: "jschar \<Rightarrow> jsstring \<Rightarrow> jsstring \<Rightarrow> jsstring list" where
  "splitFrom sep cur [] = [cur]"
| "splitFrom sep cur (c # cs) =
     (if c = sep then cur # splitFrom sep [] cs else splitFrom sep (cur @ [c]) cs)"

definition split :: "jschar \<Rightarrow> jsstring \<Rightarrow> jsstring list" where
  "split sep s = splitFrom sep [] s"

text \<open>\<open>parts.join(sep)\<close>.\<close>

fun join :: "jsstring \<Rightarrow> jsstring list \<Rightarrow> jsstring" where
  "join sep [] = []"
| "join sep [x] = x"
| "join sep (x # y # ys) = x @ sep @ join sep (y # ys)"

text \<open>
  \<open>parseInt(s, 10)\<close>: leading white space is skipped, one sign is read, then the longest
  run of decimal digits; what follows the digits is ignored. \<open>None\<close> is \<open>NaN\<close>, the
  result when there is no digit to read. The result is the integer that the digits
  denote; JavaScript rounds it to a Number, which changes nothing below \<open>2^53\<close>.
\<close>

definition digitsValue :: "jsstring \<Rightarrow> nat" where
  "digitsValue z = foldl (\<lambda>a d. 10 * a + digitVal d) 0 z"

definition parseInt :: "jsstring \<Rightarrow> int option" where
  "parseInt inputString =
     (let s = dropWhile isWhiteSpace inputString;
          sign = (if s \<noteq> [] \<and> hd s = of_char CHR ''-'' then - 1 else 1);
          s' = (if s \<noteq> [] \<and> (hd s = of_char CHR ''+'' \<or> hd s = of_char CHR ''-'')
                then tl s else s);
          z = takeWhile isDigit s'
      in if z = [] then None else Some (sign * int (digitsValue z)))"

text \<open>
  The decimal digits of a number, as a template literal \<open>${n}\<close> writes an integer that
  a Number holds exactly (below \<open>2^53\<close> in magnitude). Line and column numbers, which
  count lines and code units of one text, are in that range.
\<close>

fun natToString :: "nat \<Rightarrow> jsstring" where
  "natToString n =
     (if n < 10 then [digitChar n] else natToString (n div 10) @ [digitChar (n mod 10)])"

declare natToString.simps [simp del]

definition numToString :: "int \<Rightarrow> jsstring" where
  "numToString i =
     (if i < 0 then of_char CHR ''-'' # natToString (nat (- i)) else natToString (nat i))"

text \<open>\<open>s.trim()\<close>.\<close>

definition trim :: "jsstring \<Rightarrow> jsstring" where
  "trim s = rev (dropWhile isWhiteSpace (rev (dropWhile isWhiteSpace s)))"

text \<open>\<open>s.slice(a, b)\<close> for \<open>0 \<le> a\<close> and \<open>0 \<le> b\<close>; \<open>s.slice(a)\<close> is \<open>drop a s\<close>.\<close>

definition slice_str :: "jsstring \<Rightarrow> nat \<Rightarrow> nat \<Rightarrow> jsstring" where
  "slice_str s a b = take (b - a) (drop a s)"


section \<open>The inspector: data model (types.ts)\<close>

record SourceLocation =
  "file" :: jsstring
  line :: int
  column :: int

record ComponentInfo =
  name :: jsstring
  location :: "SourceLocation option"

definition ATTR_SOURCE :: jsstring where
  "ATTR_SOURCE = js ''data-solid-source''"

definition ATTR_COMPONENT :: jsstring where
  "ATTR_COMPONENT = js ''data-solid-component''"

text \<open>
  What the inspector reads of an \<open>HTMLElement\<close>: its tag name, its attributes, its
  serialised markup and its parent element. The functions only walk upwards, so an
  element carries its chain of ancestors; \<open>None\<close> is \<open>null\<close>.
\<close>

datatype element =
  Element (tagName: jsstring) (attributes: "(jsstring \<times> jsstring) list")
    (outerHTML: jsstring) (parentElement: "element option")

definition getAttribute :: "element \<Rightarrow> jsstring \<Rightarrow> jsstring option" where
  "getAttribute el a = map_of (attributes el) a"

text \<open>The reflected properties \<open>el.id\<close> and \<open>el.className\<close>: the empty string when absent.\<close>

definition elementId :: "element \<Rightarrow> jsstring" where
  "elementId el = (case getAttribute el (js ''id'') of None \<Rightarrow> [] | Some v \<Rightarrow> v)"

definition className :: "element \<Rightarrow> jsstring" where
  "className el = (case getAttribute el (js ''class'') of None \<Rightarrow> [] | Some v \<Rightarrow> v)"

text \<open>
  \<open>formatContext\<close> takes a \<open>GrabbedContext\<close> without its \<open>formatted\<close> field;
  \<open>inspect\<close> adds the field.
\<close>

record PartialContext =
  element :: element
  ctxTagName :: jsstring
  elementSource :: "SourceLocation option"
  components :: "ComponentInfo list"
  timestamp :: int

record GrabbedContext = PartialContext +
  formatted :: jsstring

text \<open>
  A value \<open>v\<close> of type \<open>string | null\<close> passes \<open>if (v)\<close> when it is neither \<open>null\<close>
  nor the empty string.
\<close>

definition truthy :: "jsstring option \<Rightarrow> bool" where
  "truthy v = (case v of None \<Rightarrow> False | Some s \<Rightarrow> s \<noteq> [])"


section \<open>The inspector: functions (inspector.ts)\<close>

definition parseSourceAttr :: "jsstring option \<Rightarrow> SourceLocation option" where
  "parseSourceAttr v =
     (if \<not> truthy v then None
      else
        let parts = split (of_char CHR '':'') (the v) in
        if length parts < 3 then None
        else
          let col = parseInt (last parts);
              parts1 = butlast parts;
              ln = parseInt (last parts1);
              parts2 = butlast parts1;
              f = join (js '':'') parts2
          in case (ln, col) of
               (Some l, Some c) \<Rightarrow> Some \<lparr>file = f, line = l, column = c\<rparr>
             | _ \<Rightarrow> None)"

text \<open>
  The loops \<open>while (current) { ...; current = current.parentElement; }\<close> are recursions
  over \<open>current\<close>, which is \<open>null\<close> or an element with its parent.
\<close>

fun findNearestSource_loop :: "element option \<Rightarrow> SourceLocation option" where
  "findNearestSource_loop None = None"
| "findNearestSource_loop (Some (Element t as h p)) =
     (let current = Element t as h p;
          attr = getAttribute current ATTR_SOURCE
      in if truthy attr then parseSourceAttr attr else findNearestSource_loop p)"

definition findNearestSource :: "element \<Rightarrow> SourceLocation option" where
  "findNearestSource el = findNearestSource_loop (Some el)"

definition getElementSource :: "element \<Rightarrow> SourceLocation option" where
  "getElementSource el = parseSourceAttr (getAttribute el ATTR_SOURCE)"

fun findNearestComponent_loop :: "element option \<Rightarrow> jsstring option" where
  "findNearestComponent_loop None = None"
| "findNearestComponent_loop (Some (Element t as h p)) =
     (let current = Element t as h p;
          nm = getAttribute current ATTR_COMPONENT
      in if truthy nm then nm else findNearestComponent_loop p)"

definition findNearestComponent :: "element \<Rightarrow> jsstring option" where
  "findNearestComponent el = findNearestComponent_loop (Some el)"

text \<open>
  The key of an entry in \<open>getComponentChain\<close>:
  \<^verbatim>\<open>`${name}:${source?.file}:${source?.line}`\<close>; a \<open>null\<close> source prints as
  \<open>undefined\<close> twice.
\<close>

definition chainKey :: "jsstring \<Rightarrow> SourceLocation option \<Rightarrow> jsstring" where
  "chainKey nm source =
     nm @ js '':'' @ (case source of None \<Rightarrow> js ''undefined'' | Some s \<Rightarrow> file s)
        @ js '':'' @ (case source of None \<Rightarrow> js ''undefined'' | Some s \<Rightarrow> numToString (line s))"

text \<open>The loop of \<open>getComponentChain\<close>, over \<open>current\<close>, \<open>chain\<close> and \<open>seen\<close>.\<close>

fun getComponentChain_loop ::
  "element option \<Rightarrow> ComponentInfo list \<Rightarrow> jsstring set \<Rightarrow> ComponentInfo list" where
  "getComponentChain_loop None chain seen = chain"
| "getComponentChain_loop (Some (Element t as h p)) chain seen =
     (let current = Element t as h p;
          nm = getAttribute current ATTR_COMPONENT
      in if truthy nm then
           let source = getElementSource current;
               key = chainKey (the nm) source
           in if key \<notin> seen
              then getComponentChain_loop p
                     (chain @ [\<lparr>name = the nm, location = source\<rparr>]) (insert key seen)
              else getComponentChain_loop p chain seen
         else getComponentChain_loop p chain seen)"

definition getComponentChain :: "element \<Rightarrow> ComponentInfo list" where
  "getComponentChain el = getComponentChain_loop (Some el) [] {}"

definition getElementSnippet :: "element \<Rightarrow> nat \<Rightarrow> jsstring" where
  "getElementSnippet el maxLen =
     (let html = outerHTML el in
      if length html \<le> maxLen then html else slice_str html 0 maxLen @ js ''...'')"

text \<open>
  \<open>String.prototype.toLowerCase\<close> maps by the Unicode case tables; the functions that
  call it take it as the parameter \<open>toLowerCase\<close>. \<open>parts\<close> is rebound where the
  source pushes onto it.
\<close>

definition getElementSummary :: "(jsstring \<Rightarrow> jsstring) \<Rightarrow> element \<Rightarrow> jsstring" where
  \<open>getElementSummary toLowerCase el =
     (let tag = toLowerCase (tagName el);
          parts = [js ''<'' @ tag];
          ident = elementId el;
          parts = (if ident \<noteq> [] then parts @ [js ''id="'' @ ident @ js ''"''] else parts);
          cls = className el;
          parts =
            (if cls \<noteq> [] then
               let trimmed = trim cls in
               if length trimmed \<le> 80 then parts @ [js ''class="'' @ trimmed @ js ''"'']
               else parts @ [js ''class="'' @ slice_str trimmed 0 77 @ js ''..."'']
             else parts);
          testId = getAttribute el (js ''data-testid'');
          parts =
            (if truthy testId then parts @ [js ''data-testid="'' @ the testId @ js ''"'']
             else parts)
      in join (js '' '') parts @ js ''>'')\<close>

text \<open>The code unit U+2192, the arrow of the component tree, and the line feed.\<close>

definition arrow :: jsstring where
  "arrow = [0x2192]"

definition newline :: jsstring where
  "newline = [0x000A]"

definition locationString :: "SourceLocation \<Rightarrow> jsstring" where
  "locationString s = file s @ js '':'' @ numToString (line s) @ js '':'' @ numToString (column s)"

definition componentLine :: "ComponentInfo \<Rightarrow> jsstring" where
  "componentLine cmp =
     (let loc = (case location cmp of
                   Some l \<Rightarrow> js '' '' @ arrow @ js '' '' @ locationString l
                 | None \<Rightarrow> [])
      in js ''  <'' @ name cmp @ js '' />'' @ loc)"

text \<open>The array \<open>lines\<close> of \<open>formatContext\<close>, in the order of its pushes.\<close>

definition formatContext_lines ::
  "(jsstring \<Rightarrow> jsstring) \<Rightarrow> 'a PartialContext_scheme \<Rightarrow> jsstring list" where
  "formatContext_lines toLowerCase ctx =
     [js ''--- solid-grab context ---'', []]
     @ [js ''Element: '' @ getElementSummary toLowerCase (element ctx)]
     @ (case elementSource ctx of
          Some s \<Rightarrow> [js ''Source:  '' @ locationString s]
        | None \<Rightarrow> [])
     @ (if length (components ctx) > 0
        then [[], js ''Component tree (innermost '' @ arrow @ js '' outermost):'']
             @ map componentLine (components ctx)
        else [])
     @ [[], js ''HTML:'', getElementSnippet (element ctx) 500]
     @ [[], js ''--- end solid-grab context ---'']"

definition formatContext ::
  "(jsstring \<Rightarrow> jsstring) \<Rightarrow> 'a PartialContext_scheme \<Rightarrow> jsstring" where
  "formatContext toLowerCase ctx = join newline (formatContext_lines toLowerCase ctx)"

text \<open>
  \<open>inspect\<close>; \<open>now\<close> is the value of \<open>Date.now()\<close>, and \<open>a ?? b\<close> is \<open>b\<close> when
  \<open>a\<close> is \<open>null\<close>.
\<close>

definition inspect :: "(jsstring \<Rightarrow> jsstring) \<Rightarrow> int \<Rightarrow> element \<Rightarrow> GrabbedContext" where
  "inspect toLowerCase now el =
     (let elementSource = (case getElementSource el of
                             Some s \<Rightarrow> Some s
                           | None \<Rightarrow> findNearestSource el);
          components = getComponentChain el;
          partial = \<lparr>element = el, ctxTagName = toLowerCase (tagName el),
                     elementSource = elementSource, components = components,
                     timestamp = now\<rparr>
      in PartialContext.extend partial
           (GrabbedContext.fields (formatContext toLowerCase partial)))"


section \<open>The Vite plugin: the JSX transform (vite.ts)\<close>

subsection \<open>The candidate expression \<open>JSX_OPEN_TAG_RE\<close>\<close>

text \<open>
  \<^verbatim>\<open>/(?<!\w)(<\s*)([A-Z_a-z][\w.:-]*)(\s|\/?>)/g\<close>.
  A match has an index and three groups; \<open>match[0]\<close> is their concatenation.
\<close>

record RegExpMatch =
  index :: nat
  prefix :: jsstring
  matchTagName :: jsstring
  suffix :: jsstring

definition fullMatch :: "RegExpMatch \<Rightarrow> jsstring" where
  "fullMatch m = prefix m @ matchTagName m @ suffix m"

definition isTagStart :: "jschar \<Rightarrow> bool" where
  "isTagStart c =
     ((of_char CHR ''A'' \<le> c \<and> c \<le> of_char CHR ''Z'') \<or> c = of_char CHR ''_'' \<or>
      (of_char CHR ''a'' \<le> c \<and> c \<le> of_char CHR ''z''))"

definition isTagChar :: "jschar \<Rightarrow> bool" where
  "isTagChar c =
     (isWordChar c \<or> c = of_char CHR ''.'' \<or> c = of_char CHR '':'' \<or> c = of_char CHR ''-'')"

text \<open>
  The match of the expression that starts at position \<open>p\<close>, if there is one. The two
  starred classes are greedy, and the class that follows each of them is disjoint from
  it, so a shorter repetition never matches where the longest one fails: the longest
  runs are the only candidates. The last group tries \<open>\s\<close>, then \<open>/>\<close>, then \<open>>\<close>.
\<close>

definition matchAt :: "jsstring \<Rightarrow> nat \<Rightarrow> RegExpMatch option" where
  "matchAt code p =
     (if p < length code \<and> code ! p = of_char CHR ''<''
         \<and> \<not> (0 < p \<and> isWordChar (code ! (p - 1)))
      then
        let rest = drop (p + 1) code;
            pre = of_char CHR ''<'' # takeWhile isWhiteSpace rest
        in case dropWhile isWhiteSpace rest of
             [] \<Rightarrow> None
           | c # rest2 \<Rightarrow>
               if isTagStart c then
                 let tag = c # takeWhile isTagChar rest2 in
                 case dropWhile isTagChar rest2 of
                   [] \<Rightarrow> None
                 | s # rest3 \<Rightarrow>
                     if isWhiteSpace s then
                       Some \<lparr>index = p, prefix = pre, matchTagName = tag, suffix = [s]\<rparr>
                     else if s = of_char CHR ''/'' \<and> rest3 \<noteq> []
                             \<and> hd rest3 = of_char CHR ''>'' then
                       Some \<lparr>index = p, prefix = pre, matchTagName = tag, suffix = js ''/>''\<rparr>
                     else if s = of_char CHR ''>'' then
                       Some \<lparr>index = p, prefix = pre, matchTagName = tag, suffix = js ''>''\<rparr>
                     else None
               else None
      else None)"

text \<open>
  \<open>JSX_OPEN_TAG_RE.exec(code)\<close> with \<open>lastIndex = p\<close>: the first match at a position
  from \<open>p\<close> on, or \<open>null\<close>. After a match the expression's \<open>lastIndex\<close> is the end
  of the match.
\<close>

function exec :: "jsstring \<Rightarrow> nat \<Rightarrow> RegExpMatch option" where
  "exec code p =
     (if length code \<le> p then None
      else case matchAt code p of
             Some m \<Rightarrow> Some m
           | None \<Rightarrow> exec code (p + 1))"
  by pat_completeness auto
termination
  by (relation "measure (\<lambda>(code, p). length code - p)") auto

declare exec.simps [simp del]

definition matchEnd :: "RegExpMatch \<Rightarrow> nat" where
  "matchEnd m = index m + length (fullMatch m)"

subsection \<open>\<open>isLikelyJsx\<close>\<close>

text \<open>\<open>COMPONENT_NAME_RE = /^[A-Z]|[.]/\<close>: an upper-case first letter, or a dot anywhere.\<close>

definition COMPONENT_NAME_RE_test :: "jsstring \<Rightarrow> bool" where
  "COMPONENT_NAME_RE_test s =
     ((s \<noteq> [] \<and> of_char CHR ''A'' \<le> hd s \<and> hd s \<le> of_char CHR ''Z'')
      \<or> of_char CHR ''.'' \<in> set s)"

definition JSX_PRECEDING_KEYWORDS :: "jsstring set" where
  "JSX_PRECEDING_KEYWORDS =
     {js ''return'', js ''yield'', js ''case'', js ''default'', js ''else''}"

text \<open>The white space that \<open>isLikelyJsx\<close> walks over: space, tab, line feed, carriage return.\<close>

definition isScanSpace :: "jschar \<Rightarrow> bool" where
  "isScanSpace c = (c = of_char CHR '' '' \<or> c = 0x0009 \<or> c = 0x000A \<or> c = 0x000D)"

text \<open>
  Both loops of \<open>isLikelyJsx\<close> are \<open>while (i >= 0 && P(code[i])) i--\<close>; the index
  is an integer, since it ends at \<open>-1\<close> when the scan reaches the start of the text.
\<close>

function scanBack :: "(jschar \<Rightarrow> bool) \<Rightarrow> jsstring \<Rightarrow> int \<Rightarrow> int" where
  "scanBack P code i = (if 0 \<le> i \<and> P (code ! nat i) then scanBack P code (i - 1) else i)"
  by pat_completeness auto
termination
  by (relation "measure (\<lambda>(P, code, i). nat (i + 1))") auto

declare scanBack.simps [simp del]

definition isLikelyJsx :: "jsstring \<Rightarrow> nat \<Rightarrow> bool" where
  \<open>isLikelyJsx code ltIndex =
     (let i = scanBack isScanSpace code (int ltIndex - 1) in
      if i < 0 then True
      else
        let ch = code ! nat i in
        if ch = of_char CHR '')'' \<or> ch = of_char CHR '']'' \<or> ch = of_char CHR ''"''
           \<or> ch = 0x0027 \<or> ch = of_char CHR ''`''
        then False
        else if ch \<in> set (js ''({[,;:?=!>&|+-*/%^~'') then True
        else if isWordChar ch then
          let wordEnd = i + 1;
              i' = scanBack isWordChar code i;
              word = slice_str code (nat (i' + 1)) (nat wordEnd)
          in word \<in> JSX_PRECEDING_KEYWORDS
        else True)\<close>


subsection \<open>\<open>transformJsx\<close>\<close>

record TransformOptions =
  jsxLocation :: bool
  componentLocation :: bool

text \<open>
  The table of line starts: \<open>0\<close>, then \<open>i + 1\<close> for every line feed at \<open>i\<close>. The
  recursion carries the index \<open>i\<close> of the head of the text still to read.
\<close>

fun lineStartsFrom :: "nat \<Rightarrow> jsstring \<Rightarrow> nat list" where
  "lineStartsFrom i [] = []"
| "lineStartsFrom i (c # cs) =
     (if c = 0x000A then (i + 1) # lineStartsFrom (i + 1) cs else lineStartsFrom (i + 1) cs)"

definition lineStartsOf :: "jsstring \<Rightarrow> nat list" where
  "lineStartsOf code = 0 # lineStartsFrom 0 code"

text \<open>
  The binary search of \<open>getLineCol\<close>; \<open>(lo + hi + 1) >> 1\<close> is the half, rounded down,
  for indices below \<open>2^31\<close>.
\<close>

function getLineCol_loop :: "nat list \<Rightarrow> nat \<Rightarrow> nat \<Rightarrow> nat \<Rightarrow> nat" where
  "getLineCol_loop lineStarts offset lo hi =
     (if lo < hi then
        let mid = (lo + hi + 1) div 2 in
        if lineStarts ! mid \<le> offset then getLineCol_loop lineStarts offset mid hi
        else getLineCol_loop lineStarts offset lo (mid - 1)
      else lo)"
  by pat_completeness auto
termination
  by (relation "measure (\<lambda>(lineStarts, offset, lo, hi). hi - lo)") auto

declare getLineCol_loop.simps [simp del]

definition getLineCol :: "nat list \<Rightarrow> nat \<Rightarrow> int \<times> int" where
  "getLineCol lineStarts offset =
     (let lo = getLineCol_loop lineStarts offset 0 (length lineStarts - 1)
      in (int lo + 1, int offset - int (lineStarts ! lo) + 1))"

text \<open>\<open>fileId.replace(/^\//, "")\<close>: one leading slash is removed.\<close>

definition stripLeadingSlash :: "jsstring \<Rightarrow> jsstring" where
  "stripLeadingSlash fileId =
     (case fileId of
        [] \<Rightarrow> []
      | c # cs \<Rightarrow> if c = of_char CHR ''/'' then cs else c # cs)"

text \<open>The array \<open>attrs\<close> that the loop body builds for a match.\<close>

definition buildAttrs ::
  "TransformOptions \<Rightarrow> jsstring \<Rightarrow> nat list \<Rightarrow> RegExpMatch \<Rightarrow> jsstring list" where
  \<open>buildAttrs opts shortFile lineStarts m =
     (let (ln, col) = getLineCol lineStarts (index m);
          isComponent = COMPONENT_NAME_RE_test (matchTagName m);
          attrs = [];
          attrs = (if jsxLocation opts
                   then attrs @ [js ''data-solid-source="'' @ shortFile @ js '':''
                                 @ numToString ln @ js '':'' @ numToString col @ js ''"'']
                   else attrs);
          attrs = (if componentLocation opts \<and> isComponent
                   then attrs @ [js ''data-solid-component="'' @ matchTagName m @ js ''"'']
                   else attrs)
      in attrs)\<close>

text \<open>
  The loop \<open>while ((match = JSX_OPEN_TAG_RE.exec(code)) !== null)\<close>. Its state is the
  \<open>lastIndex\<close> of the expression (\<open>reIndex\<close>), \<open>result\<close> and \<open>lastIndex\<close>.
\<close>

function transformJsx_loop ::
  "TransformOptions \<Rightarrow> jsstring \<Rightarrow> nat list \<Rightarrow> jsstring \<Rightarrow> nat \<Rightarrow> jsstring \<Rightarrow> nat \<Rightarrow> jsstring"
  where
  "transformJsx_loop opts shortFile lineStarts code reIndex result lastIndex =
     (case exec code reIndex of
        None \<Rightarrow> result @ drop lastIndex code
      | Some m \<Rightarrow>
          if \<not> isLikelyJsx code (index m) then
            transformJsx_loop opts shortFile lineStarts code (matchEnd m) result lastIndex
          else
            let attrs = buildAttrs opts shortFile lineStarts m in
            if length attrs = 0 then
              transformJsx_loop opts shortFile lineStarts code (matchEnd m)
                (result @ slice_str code lastIndex (matchEnd m)) (matchEnd m)
            else
              let attrStr = js '' '' @ join (js '' '') attrs in
              transformJsx_loop opts shortFile lineStarts code (matchEnd m)
                (result @ slice_str code lastIndex (index m)
                   @ prefix m @ matchTagName m @ attrStr @ suffix m)
                (matchEnd m))"
  by pat_completeness auto


text \<open>
  The loop ends: every match is non-empty and lies at or after the position the search
  started from, so the expression's \<open>lastIndex\<close> grows with each turn.
\<close>

lemma matchAt_Some:
  assumes "matchAt code p = Some m"
  shows "index m = p \<and> p < length code \<and> 0 < length (prefix m)"
  using assms unfolding matchAt_def Let_def
  by (auto split: if_splits list.splits)

lemma exec_Some:
  "exec code p = Some m \<Longrightarrow> p \<le> index m \<and> index m < length code \<and> matchAt code (index m) = Some m"
proof (induction code p rule: exec.induct)
  case (1 code p)
  show ?case
  proof (cases "matchAt code p")
    case None
    with "1.prems" have "exec code (p + 1) = Some m" "\<not> length code \<le> p"
      by (subst (asm) exec.simps, simp split: if_splits)+
    with "1.IH" None show ?thesis by fastforce
  next
    case (Some m')
    with "1.prems" have "m' = m" "\<not> length code \<le> p"
      by (subst (asm) exec.simps, simp split: if_splits)+
    with Some matchAt_Some [of code p m] show ?thesis by simp
  qed
qed

lemma exec_progress:
  assumes "exec code p = Some m"
  shows "p < matchEnd m \<and> p < length code"
proof -
  from exec_Some [OF assms]
  have a: "p \<le> index m" "index m < length code" "matchAt code (index m) = Some m"
    by simp_all
  from matchAt_Some [OF a(3)] have "0 < length (prefix m)" by simp
  then have "index m < matchEnd m"
    unfolding matchEnd_def fullMatch_def by simp
  with a show ?thesis by arith
qed

termination transformJsx_loop
  by (relation "measure (\<lambda>(opts, shortFile, lineStarts, code, reIndex, result, lastIndex).
        length code - reIndex)")
     (auto dest!: exec_progress)

declare transformJsx_loop.simps [simp del]

definition transformJsx :: "jsstring \<Rightarrow> jsstring \<Rightarrow> TransformOptions \<Rightarrow> jsstring" where
  "transformJsx code fileId opts =
     (let lineStarts = lineStartsOf code;
          shortFile = stripLeadingSlash fileId
      in transformJsx_loop opts shortFile lineStarts code 0 [] 0)"

subsection \<open>The plugin's \<open>transform\<close> hook\<close>

text \<open>
  The closure of \<open>solidGrab(options)\<close>: the options with their defaults applied, and
  \<open>projectRoot\<close> and \<open>isDev\<close> as \<open>configResolved\<close> has set them.
\<close>

record Plugin =
  options :: TransformOptions
  projectRoot :: jsstring
  isDev :: bool

definition startsWith :: "jsstring \<Rightarrow> jsstring \<Rightarrow> bool" where
  "startsWith s t = (take (length t) s = t)"

text \<open>\<open>s.includes(t)\<close>.\<close>

fun includes_str :: "jsstring \<Rightarrow> jsstring \<Rightarrow> bool" where
  "includes_str [] t = (t = [])"
| "includes_str (c # cs) t = (startsWith (c # cs) t \<or> includes_str cs t)"

text \<open>\<^verbatim>\<open>/\.[jt]sx$/.test(id)\<close>.\<close>

definition isJsxFile :: "jsstring \<Rightarrow> bool" where
  "isJsxFile ident =
     (4 \<le> length ident \<and>
      (drop (length ident - 4) ident = js ''.jsx'' \<or> drop (length ident - 4) ident = js ''.tsx''))"

text \<open>
  \<open>transform(code, id)\<close>: \<open>None\<close> is \<open>null\<close>, \<open>Some c\<close> is \<open>{ code: c, map: null }\<close>.
  \<open>relativePathOf\<close> is the local \<open>relativePath\<close>.
\<close>

definition relativePathOf :: "Plugin \<Rightarrow> jsstring \<Rightarrow> jsstring" where
  "relativePathOf plugin ident =
     (if startsWith ident (projectRoot plugin)
      then drop (length (projectRoot plugin) + 1) ident
      else ident)"

definition transform :: "Plugin \<Rightarrow> jsstring \<Rightarrow> jsstring \<Rightarrow> jsstring option" where
  "transform plugin code ident =
     (if \<not> isDev plugin then None
      else if \<not> isJsxFile ident then None
      else if includes_str ident (js ''node_modules'') then None
      else
        let relativePath = relativePathOf plugin ident;
            transformed = transformJsx code relativePath (options plugin)
        in if transformed = code then None else Some transformed)"


section \<open>Notions used to state the properties\<close>

text \<open>The chain that the inspector walks: the element, its parent, and so on upwards.\<close>

fun ancestorsOf :: "element option \<Rightarrow> element list" where
  "ancestorsOf None = []"
| "ancestorsOf (Some (Element t as h p)) = Element t as h p # ancestorsOf p"

text \<open>
  Every component entry of the chain, innermost first, before any deduplication: one
  entry for each element that carries a non-empty \<open>data-solid-component\<close>, paired with
  the element's own source location.
\<close>

fun componentEntries :: "element option \<Rightarrow> ComponentInfo list" where
  "componentEntries None = []"
| "componentEntries (Some (Element t as h p)) =
     (let current = Element t as h p;
          nm = getAttribute current ATTR_COMPONENT
      in if truthy nm
         then \<lparr>name = the nm, location = getElementSource current\<rparr> # componentEntries p
         else componentEntries p)"

text \<open>
  The key by name, file and line: \<open>name:file:line\<close>, and \<open>name:undefined:undefined\<close>
  for an entry without a location. The column is no part of it.
\<close>

definition nameFileLineKey :: "ComponentInfo \<Rightarrow> jsstring" where
  "nameFileLineKey c =
     (case location c of
        Some s \<Rightarrow> name c @ js '':'' @ file s @ js '':'' @ numToString (line s)
      | None \<Rightarrow> name c @ js '':undefined:undefined'')"

text \<open>Keeping, of the entries with one key, the first only; \<open>seen\<close> holds the keys met.\<close>

fun keepFirstBy :: "('a \<Rightarrow> 'k) \<Rightarrow> 'k set \<Rightarrow> 'a list \<Rightarrow> 'a list" where
  "keepFirstBy key seen [] = []"
| "keepFirstBy key seen (c # cs) =
     (if key c \<in> seen then keepFirstBy key seen cs
      else c # keepFirstBy key (insert (key c) seen) cs)"

text \<open>Two entries with the same name, file and line, whatever their columns.\<close>

definition sameNameFileLine :: "ComponentInfo \<Rightarrow> ComponentInfo \<Rightarrow> bool" where
  "sameNameFileLine a b =
     (name a = name b \<and>
      (case (location a, location b) of
         (None, None) \<Rightarrow> True
       | (Some x, Some y) \<Rightarrow> file x = file y \<and> line x = line y
       | _ \<Rightarrow> False))"

text \<open>
  Example trees. A button inside a \<open>TreeNode\<close> rendered inside a \<open>Panel\<close> that is
  itself inside the same \<open>TreeNode\<close>, as a recursive component renders; the outer
  occurrence is written once at the same source position and once at another column.
\<close>

definition treeNodeAt :: "string \<Rightarrow> element option \<Rightarrow> element" where
  "treeNodeAt pos p =
     Element (js ''DIV'') [(ATTR_COMPONENT, js ''TreeNode''), (ATTR_SOURCE, js pos)] [] p"

definition panelIn :: "element option \<Rightarrow> element" where
  "panelIn p =
     Element (js ''DIV'')
       [(ATTR_COMPONENT, js ''Panel''), (ATTR_SOURCE, js ''src/Panel.tsx:2:1'')] [] p"

definition recursiveTree :: "string \<Rightarrow> element" where
  "recursiveTree outerPos =
     Element (js ''BUTTON'') [] []
       (Some (treeNodeAt ''src/Tree.tsx:5:3''
         (Some (panelIn (Some (treeNodeAt outerPos None))))))"

text \<open>The entries of these trees.\<close>

definition treeNodeEntry :: "string \<Rightarrow> int \<Rightarrow> int \<Rightarrow> ComponentInfo" where
  "treeNodeEntry f l c =
     \<lparr>name = js ''TreeNode'', location = Some \<lparr>file = js f, line = l, column = c\<rparr>\<rparr>"

definition panelEntry :: ComponentInfo where
  "panelEntry =
     \<lparr>name = js ''Panel'', location = Some \<lparr>file = js ''src/Panel.tsx'', line = 2, column = 1\<rparr>\<rparr>"

text \<open>
  A \<open>span\<close> with the given attributes inside a \<open>div\<close> that carries a well-formed
  source attribute, and a button inside that \<open>span\<close>.
\<close>

definition validParent :: element where
  "validParent = Element (js ''DIV'') [(ATTR_SOURCE, js ''src/App.tsx:1:1'')] [] None"

definition spanWith :: "(jsstring \<times> jsstring) list \<Rightarrow> element" where
  "spanWith attrs = Element (js ''SPAN'') attrs [] (Some validParent)"

definition buttonIn :: "element \<Rightarrow> element" where
  "buttonIn e = Element (js ''BUTTON'') [] [] (Some e)"

definition bareSpan :: element where
  "bareSpan = Element (js ''span'') [] (js ''<span></span>'') None"

text \<open>
  Every match that the loop of \<open>transformJsx\<close> meets, in order: the first match from
  \<open>p\<close> on, then the matches from its end on.
\<close>

function allMatches :: "jsstring \<Rightarrow> nat \<Rightarrow> RegExpMatch list" where
  "allMatches code p =
     (case exec code p of
        None \<Rightarrow> []
      | Some m \<Rightarrow> m # allMatches code (matchEnd m))"
  by pat_completeness auto
termination
  by (relation "measure (\<lambda>(code, p). length code - p)") (auto dest!: exec_progress)

declare allMatches.simps [simp del]

text \<open>The position just after the tag name of a match, where the attributes go.\<close>

definition tagNameEnd :: "RegExpMatch \<Rightarrow> nat" where
  "tagNameEnd m = index m + length (prefix m) + length (matchTagName m)"

text \<open>
  The text \<open>code\<close> from \<open>start\<close> on with each string inserted at its position; the
  positions ascend.
\<close>

fun insertAll :: "jsstring \<Rightarrow> nat \<Rightarrow> (nat \<times> jsstring) list \<Rightarrow> jsstring" where
  "insertAll code start [] = drop start code"
| "insertAll code start ((pos, s) # rest) = slice_str code start pos @ s @ insertAll code pos rest"

text \<open>
  The string \<open>attrStr\<close> of a match, the matches that are confirmed as JSX and get a
  non-empty \<open>attrs\<close>, and the insertions that \<open>transformJsx\<close> makes for them.
\<close>

definition attrString :: "TransformOptions \<Rightarrow> jsstring \<Rightarrow> jsstring \<Rightarrow> RegExpMatch \<Rightarrow> jsstring" where
  "attrString opts shortFile code m =
     js '' '' @ join (js '' '') (buildAttrs opts shortFile (lineStartsOf code) m)"

definition isInjectionSite :: "TransformOptions \<Rightarrow> jsstring \<Rightarrow> jsstring \<Rightarrow> RegExpMatch \<Rightarrow> bool" where
  "isInjectionSite opts shortFile code m =
     (isLikelyJsx code (index m) \<and> buildAttrs opts shortFile (lineStartsOf code) m \<noteq> [])"

definition injectionSites :: "TransformOptions \<Rightarrow> jsstring \<Rightarrow> jsstring \<Rightarrow> RegExpMatch list" where
  "injectionSites opts fileId code =
     filter (isInjectionSite opts (stripLeadingSlash fileId) code) (allMatches code 0)"

definition injections :: "TransformOptions \<Rightarrow> jsstring \<Rightarrow> jsstring \<Rightarrow> (nat \<times> jsstring) list" where
  "injections opts fileId code =
     map (\<lambda>m. (tagNameEnd m, attrString opts (stripLeadingSlash fileId) code m))
       (injectionSites opts fileId code)"

fun ascending :: "nat \<Rightarrow> (nat \<times> jsstring) list \<Rightarrow> bool" where
  "ascending start [] = True"
| "ascending start ((pos, s) # rest) = (start \<le> pos \<and> ascending pos rest)"

text \<open>The options with their defaults, and a plugin in development mode.\<close>

definition defaultOptions :: TransformOptions where
  "defaultOptions = \<lparr>jsxLocation = True, componentLocation = True\<rparr>"

definition devPlugin :: "TransformOptions \<Rightarrow> Plugin" where
  "devPlugin opts = \<lparr>options = opts, projectRoot = js ''/project'', isDev = True\<rparr>"

section \<open>Properties of \<open>parseSourceAttr\<close>\<close>

subsection \<open>Splitting, joining and reading numbers\<close>

lemma splitFrom_nonempty: "splitFrom sep cur s \<noteq> []"
  by (induction s arbitrary: cur) auto

lemma splitFrom_no_sep: "sep \<notin> set s \<Longrightarrow> splitFrom sep cur s = [cur @ s]"
  by (induction s arbitrary: cur) auto

lemma splitFrom_append_sep:
  "splitFrom sep cur (a @ sep # b) = splitFrom sep cur a @ splitFrom sep [] b"
  by (induction a arbitrary: cur) auto

lemma join_Cons: "ys \<noteq> [] \<Longrightarrow> join sep (x # ys) = x @ sep @ join sep ys"
  by (cases ys) auto

lemma join_splitFrom: "join [sep] (splitFrom sep cur s) = cur @ s"
  by (induction s arbitrary: cur) (auto simp: join_Cons splitFrom_nonempty)

lemma length_split_pos: "0 < length (split sep s)"
  using splitFrom_nonempty [of sep "[]" s] by (simp add: split_def)

lemma split_no_sep: "sep \<notin> set s \<Longrightarrow> split sep s = [s]"
  by (simp add: split_def splitFrom_no_sep)

lemma split_append_sep: "split sep (a @ sep # b) = split sep a @ split sep b"
  by (simp add: split_def splitFrom_append_sep)

lemma join_split: "join [sep] (split sep s) = s"
  by (simp add: split_def join_splitFrom)

lemma unat_digitChar: "d < 10 \<Longrightarrow> unat (digitChar d) = 48 + d"
proof -
  assume "d < 10"
  then have "48 + d < 2 ^ LENGTH(16)" by simp
  then have "unat (of_nat (48 + d) :: 16 word) = 48 + d"
    by (simp only: unat_of_nat mod_less)
  then show ?thesis by (simp only: digitChar_def)
qed

lemma digitChar_isDigit: "d < 10 \<Longrightarrow> isDigit (digitChar d)"
  unfolding isDigit_def by (simp add: word_le_nat_alt unat_digitChar)

lemma digitVal_digitChar: "d < 10 \<Longrightarrow> digitVal (digitChar d) = d"
  unfolding digitVal_def by (simp add: unat_digitChar)

lemma natToString_digits: "\<forall>c \<in> set (natToString n). isDigit c"
proof (induction n rule: natToString.induct)
  case (1 n)
  show ?case
  proof (cases "n < 10")
    case True
    then show ?thesis by (subst natToString.simps) (simp add: digitChar_isDigit)
  next
    case False
    then show ?thesis using 1 by (subst natToString.simps) (simp add: digitChar_isDigit)
  qed
qed

lemma natToString_nonempty: "natToString n \<noteq> []"
  by (subst natToString.simps) simp

lemma digitsValue_snoc: "digitsValue (z @ [d]) = 10 * digitsValue z + digitVal d"
  by (simp add: digitsValue_def)

lemma digitsValue_natToString: "digitsValue (natToString n) = n"
proof (induction n rule: natToString.induct)
  case (1 n)
  show ?case
  proof (cases "n < 10")
    case True
    then show ?thesis
      by (subst natToString.simps) (simp add: digitsValue_def digitVal_digitChar)
  next
    case False
    then have "digitsValue (natToString (n div 10)) = n div 10" using 1 by simp
    with False show ?thesis
      by (subst natToString.simps) (simp add: digitsValue_snoc digitVal_digitChar)
  qed
qed

lemma isDigit_not_ws: "isDigit c \<Longrightarrow> \<not> isWhiteSpace c"
  unfolding isDigit_def isWhiteSpace_def by (auto simp: word_le_nat_alt)

lemma isDigit_not_sign: "isDigit c \<Longrightarrow> c \<noteq> of_char CHR ''-'' \<and> c \<noteq> of_char CHR ''+'' \<and> c \<noteq> of_char CHR '':''"
  unfolding isDigit_def by (auto simp: word_le_nat_alt)

lemma takeWhile_all: "\<forall>c \<in> set xs. P c \<Longrightarrow> takeWhile P xs = xs"
  by (induction xs) auto

lemma parseInt_natToString: "parseInt (natToString n) = Some (int n)"
proof -
  obtain c cs where cs: "natToString n = c # cs"
    using natToString_nonempty [of n] by (cases "natToString n") auto
  have dig: "\<forall>c \<in> set (natToString n). isDigit c" by (rule natToString_digits)
  then have c: "isDigit c" using cs by simp
  have dw: "dropWhile isWhiteSpace (natToString n) = natToString n"
    using c cs isDigit_not_ws by simp
  have tw: "takeWhile isDigit (natToString n) = natToString n"
    using dig by (rule takeWhile_all)
  show ?thesis
    unfolding parseInt_def dw using cs isDigit_not_sign [OF c] tw
    by (simp add: Let_def digitsValue_natToString [of n, unfolded cs])
qed

lemma parseInt_numToString: "parseInt (numToString i) = Some i"
proof (cases "i < 0")
  case False
  then show ?thesis by (simp add: numToString_def parseInt_natToString)
next
  case True
  let ?s = "natToString (nat (- i))"
  have ne: "?s \<noteq> []" by (rule natToString_nonempty)
  have dig: "\<forall>c \<in> set ?s. isDigit c" by (rule natToString_digits)
  have tw: "takeWhile isDigit ?s = ?s" using dig by (rule takeWhile_all)
  have mw: "\<not> isWhiteSpace (of_char CHR ''-'')" by (simp add: isWhiteSpace_def)
  have dw: "dropWhile isWhiteSpace (of_char CHR ''-'' # ?s) = of_char CHR ''-'' # ?s"
    using mw by simp
  have "parseInt (of_char CHR ''-'' # ?s) = Some (- int (digitsValue ?s))"
    unfolding parseInt_def dw Let_def by (simp add: tw ne)
  then show ?thesis
    using True by (simp add: numToString_def digitsValue_natToString)
qed

lemma numToString_no_colon: "of_char CHR '':'' \<notin> set (numToString i)"
proof -
  have "\<forall>c \<in> set (natToString n). c \<noteq> of_char CHR '':''" for n
    using natToString_digits [of n] isDigit_not_sign by blast
  then show ?thesis by (auto simp: numToString_def)
qed

lemma parseSourceAttr_format:
  "parseSourceAttr (Some (f @ js '':'' @ numToString l @ js '':'' @ numToString c)) =
     Some \<lparr>file = f, line = l, column = c\<rparr>"
proof -
  define v where "v = f @ js '':'' @ numToString l @ js '':'' @ numToString c"
  define sep :: jschar where "sep = of_char CHR '':''"
  have v: "v = f @ sep # (numToString l @ sep # numToString c)"
    by (simp add: v_def sep_def)
  have nl: "sep \<notin> set (numToString l)" and nc: "sep \<notin> set (numToString c)"
    unfolding sep_def by (rule numToString_no_colon)+
  have "split sep (numToString l @ sep # numToString c) = [numToString l, numToString c]"
    by (simp only: split_append_sep split_no_sep [OF nl] split_no_sep [OF nc]) simp
  then have sp: "split sep v = split sep f @ [numToString l, numToString c]"
    by (simp only: v split_append_sep)
  have len: "\<not> length (split sep v) < 3"
    using length_split_pos [of sep f] unfolding sp by simp
  have tr: "truthy (Some v)" by (simp add: truthy_def v)
  have l1: "last (split sep v) = numToString c" by (simp add: sp)
  have b1: "butlast (split sep v) = split sep f @ [numToString l]"
    by (simp add: sp butlast_append)
  have l2: "last (butlast (split sep v)) = numToString l" by (simp add: b1)
  have b2: "butlast (butlast (split sep v)) = split sep f" by (simp add: b1)
  have j: "join [58] (split sep f) = f"
    using join_split [of sep f] by (simp add: sep_def)
  have "parseSourceAttr (Some v) = Some \<lparr>file = f, line = l, column = c\<rparr>"
    unfolding parseSourceAttr_def Let_def sep_def [symmetric]
    using tr len by (simp add: l1 l2 b2 j parseInt_numToString)
  then show ?thesis by (simp only: v_def)
qed


text \<open>
  Claim C3. For every file string, which may contain colons, and all integers
  \<open>line \<ge> 1\<close> and \<open>column \<ge> 1\<close> that a JavaScript Number holds exactly (below
  \<open>2^53\<close>, where the template literal writes every digit and \<open>parseInt\<close> reads the
  digits back without rounding), \<open>parseSourceAttr\<close> applied to the attribute string
  \<open>file:line:column\<close> returns exactly \<open>{file, line, column}\<close>: the fields of the
  string are the fields of the file followed by the two numbers, the last two fields
  are read as the column and the line, and the remaining fields joined with colons are
  the file again.
\<close>

theorem parseSourceAttr_roundtrip:
  assumes "1 \<le> l" and "l < 2 ^ 53" and "1 \<le> c" and "c < 2 ^ 53"
  shows "parseSourceAttr (Some (f @ js '':'' @ numToString l @ js '':'' @ numToString c))
           = Some \<lparr>file = f, line = l, column = c\<rparr>
         \<and> split (of_char CHR '':'') (f @ js '':'' @ numToString l @ js '':'' @ numToString c)
           = split (of_char CHR '':'') f @ [numToString l, numToString c]
         \<and> join (js '':'') (split (of_char CHR '':'') f) = f"
proof -
  let ?sep = "of_char CHR '':'' :: jschar"
  have nl: "?sep \<notin> set (numToString l)" and nc: "?sep \<notin> set (numToString c)"
    by (rule numToString_no_colon)+
  have "split ?sep (numToString l @ ?sep # numToString c) = [numToString l, numToString c]"
    by (simp only: split_append_sep split_no_sep [OF nl] split_no_sep [OF nc]) simp
  then have "split ?sep (f @ ?sep # (numToString l @ ?sep # numToString c))
               = split ?sep f @ [numToString l, numToString c]"
    by (simp only: split_append_sep)
  moreover have "join [?sep] (split ?sep f) = f" by (rule join_split)
  ultimately show ?thesis using parseSourceAttr_format [of f l c] by simp
qed

theorem parseSourceAttr_roundtrip_witness:
  "parseSourceAttr (Some (js ''C:/src/App.tsx:42:8''))
     = Some \<lparr>file = js ''C:/src/App.tsx'', line = 42, column = 8\<rparr>"
  using parseSourceAttr_roundtrip [of 42 8 "js ''C:/src/App.tsx''"]
  by (simp add: numToString_def natToString.simps digitChar_def split_def)

text \<open>
  Claim C4. \<open>parseSourceAttr\<close> returns \<open>null\<close> for \<open>null\<close>, for the empty string, for
  every string with fewer than three colon-delimited fields, and for every string one of
  whose last two fields \<open>parseInt\<close> cannot read (\<open>NaN\<close>), such as \<open>file:abc:def\<close>.
\<close>

theorem parseSourceAttr_null:
  "parseSourceAttr None = None
   \<and> parseSourceAttr (Some []) = None
   \<and> (length (split (of_char CHR '':'') v) < 3 \<longrightarrow> parseSourceAttr (Some v) = None)
   \<and> (parseInt (last (split (of_char CHR '':'') v)) = None
        \<or> parseInt (last (butlast (split (of_char CHR '':'') v))) = None
      \<longrightarrow> parseSourceAttr (Some v) = None)
   \<and> parseSourceAttr (Some (js ''file:abc:def'')) = None"
proof -
  have "parseSourceAttr (Some (js ''file:abc:def'')) = None"
    by (simp add: parseSourceAttr_def truthy_def parseInt_def isWhiteSpace_def isDigit_def
        split_def)
  then show ?thesis
    by (auto simp: parseSourceAttr_def truthy_def Let_def split: option.splits)
qed

theorem parseSourceAttr_null_witness:
  "length (split (of_char CHR '':'') (js ''file:10'')) < 3
   \<and> parseSourceAttr (Some (js ''file:10'')) = None
   \<and> parseInt (last (split (of_char CHR '':'') (js ''src/App.tsx:12:x''))) = None
   \<and> parseSourceAttr (Some (js ''src/App.tsx:12:x'')) = None"
  using parseSourceAttr_null [of "js ''file:10''"] parseSourceAttr_null [of "js ''src/App.tsx:12:x''"]
  by (simp add: parseInt_def isWhiteSpace_def isDigit_def split_def)


section \<open>Properties of the ancestor walk\<close>

subsection \<open>The component chain\<close>

lemma chainKey_nameFileLineKey: "chainKey (name c) (location c) = nameFileLineKey c"
  by (simp add: chainKey_def nameFileLineKey_def split: option.splits)

lemma getComponentChain_loop_keepFirstBy:
  "getComponentChain_loop cur chain seen
     = chain @ keepFirstBy nameFileLineKey seen (componentEntries cur)"
proof (induction cur chain seen rule: getComponentChain_loop.induct)
  case (1 chain seen)
  then show ?case by simp
next
  case (2 t as h p chain seen)
  let ?c = "\<lparr>name = the (getAttribute (Element t as h p) ATTR_COMPONENT),
             location = getElementSource (Element t as h p)\<rparr>"
  have k: "chainKey (the (getAttribute (Element t as h p) ATTR_COMPONENT))
             (getElementSource (Element t as h p)) = nameFileLineKey ?c"
    using chainKey_nameFileLineKey [of ?c] by simp
  from 2 show ?case by (simp add: Let_def k)
qed

lemma keepFirstBy_keys: "key ` set (keepFirstBy key seen cs) \<inter> seen = {}"
  by (induction cs arbitrary: seen) auto

lemma keepFirstBy_distinct: "distinct (map key (keepFirstBy key seen cs))"
proof (induction cs arbitrary: seen)
  case Nil
  then show ?case by simp
next
  case (Cons c cs)
  show ?case
  proof (cases "key c \<in> seen")
    case True
    then show ?thesis using Cons.IH by simp
  next
    case False
    have "key c \<notin> key ` set (keepFirstBy key (insert (key c) seen) cs)"
      using keepFirstBy_keys [of key "insert (key c) seen" cs] by auto
    then show ?thesis using False Cons.IH by simp
  qed
qed

lemma keepFirstBy_image:
  "key ` set (keepFirstBy key seen cs) = key ` set cs - seen"
  by (induction cs arbitrary: seen) auto

lemma keepFirstBy_first:
  "key b \<notin> seen \<Longrightarrow> key b \<notin> key ` set xs \<Longrightarrow> b \<in> set (keepFirstBy key seen (xs @ b # ys))"
  by (induction xs arbitrary: seen) auto

lemma last_field_unique:
  fixes a b x y :: jsstring
  assumes "a @ sep # x = b @ sep # y" and "sep \<notin> set x" and "sep \<notin> set y"
  shows "a = b \<and> x = y"
proof -
  have "split sep (a @ sep # x) = split sep a @ [x]"
    by (simp add: split_append_sep split_no_sep [OF assms(2)])
  moreover have "split sep (b @ sep # y) = split sep b @ [y]"
    by (simp add: split_append_sep split_no_sep [OF assms(3)])
  ultimately have "split sep a @ [x] = split sep b @ [y]" using assms(1) by simp
  then have "split sep a = split sep b" and xy: "x = y" by simp_all
  then have "join [sep] (split sep a) = join [sep] (split sep b)" by simp
  then have "a = b" by (simp add: join_split)
  with xy show ?thesis by simp
qed

lemma numToString_inj:
  assumes "numToString i = numToString j"
  shows "i = j"
proof -
  have "parseInt (numToString i) = parseInt (numToString j)" by (simp only: assms)
  then have "Some i = Some j" by (simp only: parseInt_numToString)
  then show ?thesis by simp
qed

lemma undefined_no_colon: "of_char CHR '':'' \<notin> set (js ''undefined'')"
  by simp

lemma numToString_not_undefined: "numToString i \<noteq> js ''undefined''"
proof
  assume a: "numToString i = js ''undefined''"
  have "parseInt (numToString i) = Some i" by (rule parseInt_numToString)
  then have "parseInt (js ''undefined'') = Some i" by (simp only: a)
  then show False by (simp add: parseInt_def isWhiteSpace_def isDigit_def)
qed

lemma same_name_key_iff:
  assumes "name a = name b"
  shows "nameFileLineKey a = nameFileLineKey b \<longleftrightarrow> sameNameFileLine a b"
proof (cases "location a")
  case None
  note la = None
  show ?thesis
  proof (cases "location b")
    case None
    with la assms show ?thesis by (simp add: nameFileLineKey_def sameNameFileLine_def)
  next
    case (Some y)
    have "js ''undefined'' @ of_char CHR '':'' # js ''undefined''
            \<noteq> file y @ of_char CHR '':'' # numToString (line y)"
    proof
      assume "js ''undefined'' @ of_char CHR '':'' # js ''undefined''
                = file y @ of_char CHR '':'' # numToString (line y)"
      from last_field_unique [OF this undefined_no_colon numToString_no_colon]
      have "js ''undefined'' = numToString (line y)" by (rule conjunct2)
      from numToString_not_undefined [of "line y"] this [symmetric] show False by (rule notE)
    qed
    with la Some assms show ?thesis by (simp add: nameFileLineKey_def sameNameFileLine_def)
  qed
next
  case (Some x)
  note la = Some
  show ?thesis
  proof (cases "location b")
    case None
    have "file x @ of_char CHR '':'' # numToString (line x)
            \<noteq> js ''undefined'' @ of_char CHR '':'' # js ''undefined''"
    proof
      assume "file x @ of_char CHR '':'' # numToString (line x)
                = js ''undefined'' @ of_char CHR '':'' # js ''undefined''"
      from last_field_unique [OF this numToString_no_colon undefined_no_colon]
      have "numToString (line x) = js ''undefined''" by (rule conjunct2)
      with numToString_not_undefined [of "line x"] show False by (rule notE)
    qed
    with la None assms show ?thesis by (simp add: nameFileLineKey_def sameNameFileLine_def)
  next
    case (Some y)
    have "file x @ of_char CHR '':'' # numToString (line x)
            = file y @ of_char CHR '':'' # numToString (line y)
          \<longleftrightarrow> file x = file y \<and> line x = line y"
    proof
      assume "file x @ of_char CHR '':'' # numToString (line x)
            = file y @ of_char CHR '':'' # numToString (line y)"
      from last_field_unique [OF this numToString_no_colon numToString_no_colon]
      show "file x = file y \<and> line x = line y" using numToString_inj by blast
    next
      assume "file x = file y \<and> line x = line y"
      then show "file x @ of_char CHR '':'' # numToString (line x)
            = file y @ of_char CHR '':'' # numToString (line y)" by simp
    qed
    with la Some assms show ?thesis by (simp add: nameFileLineKey_def sameNameFileLine_def)
  qed
qed

text \<open>
  Claim C10. For every element, \<open>getComponentChain\<close> returns the entries of the chain
  with, for each key \<open>name:file:line\<close>, only the first entry that has it, over the
  whole walk. The key is the name, a colon, the file, a colon and the line
  (\<open>undefined\<close> twice without a location); the column is no part of it. So the keys of
  the result are pairwise distinct and are the keys of the chain; no two entries at
  any two positions, consecutive or not, have the same name, file and line; among
  entries of one name the key tells apart exactly those that differ in file or line;
  and an entry whose key no entry before it has, is kept.
\<close>

theorem getComponentChain_global_dedup:
  "getComponentChain el = keepFirstBy nameFileLineKey {} (componentEntries (Some el))
   \<and> nameFileLineKey \<lparr>name = n, location = Some \<lparr>file = f, line = l, column = k\<rparr>\<rparr>
        = n @ js '':'' @ f @ js '':'' @ numToString l
   \<and> nameFileLineKey \<lparr>name = n, location = None\<rparr> = n @ js '':undefined:undefined''
   \<and> distinct (map nameFileLineKey (getComponentChain el))
   \<and> nameFileLineKey ` set (getComponentChain el)
        = nameFileLineKey ` set (componentEntries (Some el))
   \<and> (name a = name b \<longrightarrow>
        (nameFileLineKey a = nameFileLineKey b \<longleftrightarrow> sameNameFileLine a b))
   \<and> (componentEntries (Some el) = xs @ b # ys
        \<and> nameFileLineKey b \<notin> nameFileLineKey ` set xs
        \<longrightarrow> b \<in> set (getComponentChain el))
   \<and> (i < j \<and> j < length (getComponentChain el) \<longrightarrow>
        \<not> sameNameFileLine (getComponentChain el ! i) (getComponentChain el ! j))"
proof -
  have eq: "getComponentChain el = keepFirstBy nameFileLineKey {} (componentEntries (Some el))"
    by (simp add: getComponentChain_def getComponentChain_loop_keepFirstBy)
  have k1: "nameFileLineKey \<lparr>name = n, location = Some \<lparr>file = f, line = l, column = k\<rparr>\<rparr>
        = n @ js '':'' @ f @ js '':'' @ numToString l"
    and k2: "nameFileLineKey \<lparr>name = n, location = None\<rparr> = n @ js '':undefined:undefined''"
    by (simp_all add: nameFileLineKey_def)
  have d: "distinct (map nameFileLineKey (getComponentChain el))"
    unfolding eq by (rule keepFirstBy_distinct)
  have im: "nameFileLineKey ` set (getComponentChain el)
        = nameFileLineKey ` set (componentEntries (Some el))"
    unfolding eq by (simp add: keepFirstBy_image)
  have s: "name a = name b \<longrightarrow>
        (nameFileLineKey a = nameFileLineKey b \<longleftrightarrow> sameNameFileLine a b)"
    using same_name_key_iff by blast
  have fst: "componentEntries (Some el) = xs @ b # ys
        \<and> nameFileLineKey b \<notin> nameFileLineKey ` set xs
        \<longrightarrow> b \<in> set (getComponentChain el)"
    unfolding eq using keepFirstBy_first [of nameFileLineKey b "{}" xs ys] by auto
  have nd: "i < j \<and> j < length (getComponentChain el) \<longrightarrow>
        \<not> sameNameFileLine (getComponentChain el ! i) (getComponentChain el ! j)"
  proof (intro impI notI, elim conjE)
    assume ij: "i < j" "j < length (getComponentChain el)"
      and sm: "sameNameFileLine (getComponentChain el ! i) (getComponentChain el ! j)"
    from sm have "name (getComponentChain el ! i) = name (getComponentChain el ! j)"
      by (simp add: sameNameFileLine_def)
    with sm same_name_key_iff
    have "nameFileLineKey (getComponentChain el ! i) = nameFileLineKey (getComponentChain el ! j)"
      by blast
    then have "map nameFileLineKey (getComponentChain el) ! i
                 = map nameFileLineKey (getComponentChain el) ! j"
      using ij by simp
    with d ij show False by (simp add: distinct_conv_nth)
  qed
  from eq k1 k2 d im s fst nd show ?thesis by blast
qed


theorem getComponentChain_global_dedup_witness:
  "getComponentChain (recursiveTree ''src/Tree.tsx:5:9'')
     = [treeNodeEntry ''src/Tree.tsx'' 5 3, panelEntry]
   \<and> \<not> sameNameFileLine (getComponentChain (recursiveTree ''src/Tree.tsx:5:9'') ! 0)
                          (getComponentChain (recursiveTree ''src/Tree.tsx:5:9'') ! 1)
   \<and> nameFileLineKey (treeNodeEntry ''src/Tree.tsx'' 5 3)
       = nameFileLineKey (treeNodeEntry ''src/Tree.tsx'' 5 9)
   \<and> nameFileLineKey (treeNodeEntry ''src/Tree.tsx'' 5 3)
       \<noteq> nameFileLineKey (treeNodeEntry ''src/Tree.tsx'' 9 3)
   \<and> nameFileLineKey (treeNodeEntry ''src/Tree.tsx'' 5 3)
       \<noteq> nameFileLineKey (treeNodeEntry ''src/Other.tsx'' 5 3)
   \<and> treeNodeEntry ''src/Tree.tsx'' 9 3 \<in> set (getComponentChain (recursiveTree ''src/Tree.tsx:9:3''))
   \<and> getComponentChain (recursiveTree ''src/Tree.tsx:9:3'')
     = [treeNodeEntry ''src/Tree.tsx'' 5 3, panelEntry, treeNodeEntry ''src/Tree.tsx'' 9 3]
   \<and> getComponentChain (recursiveTree ''src/Other.tsx:5:3'')
     = [treeNodeEntry ''src/Tree.tsx'' 5 3, panelEntry, treeNodeEntry ''src/Other.tsx'' 5 3]
   \<and> nameFileLineKey (treeNodeEntry ''src/Tree.tsx'' 5 3) = js ''TreeNode:src/Tree.tsx:5''"
proof -
  let ?A = "treeNodeEntry ''src/Tree.tsx'' 5 3"
  have c1: "getComponentChain (recursiveTree ''src/Tree.tsx:5:9'') = [?A, panelEntry]"
    by code_simp
  have c2: "getComponentChain (recursiveTree ''src/Tree.tsx:9:3'')
     = [?A, panelEntry, treeNodeEntry ''src/Tree.tsx'' 9 3]"
    by code_simp
  have c3: "getComponentChain (recursiveTree ''src/Other.tsx:5:3'')
     = [?A, panelEntry, treeNodeEntry ''src/Other.tsx'' 5 3]"
    by code_simp
  have r2: "componentEntries (Some (recursiveTree ''src/Tree.tsx:9:3''))
     = [?A, panelEntry] @ treeNodeEntry ''src/Tree.tsx'' 9 3 # []"
    by code_simp
  have h: "(0::nat) < 1 \<and> 1 < length (getComponentChain (recursiveTree ''src/Tree.tsx:5:9''))"
    by (simp add: c1)
  have w1: "\<not> sameNameFileLine (getComponentChain (recursiveTree ''src/Tree.tsx:5:9'') ! 0)
                          (getComponentChain (recursiveTree ''src/Tree.tsx:5:9'') ! 1)"
    using getComponentChain_global_dedup
      [where el = "recursiveTree ''src/Tree.tsx:5:9''" and i = 0 and j = 1] h
    by blast
  note same = getComponentChain_global_dedup
    [THEN conjunct2, THEN conjunct2, THEN conjunct2, THEN conjunct2, THEN conjunct2,
     THEN conjunct1, rule_format]
  have n: "name ?A = name (treeNodeEntry f l c)" for f l c
    by (simp add: treeNodeEntry_def)
  have "sameNameFileLine ?A (treeNodeEntry ''src/Tree.tsx'' 5 9)"
    by (simp add: sameNameFileLine_def treeNodeEntry_def)
  with same [OF n] have w2:
    "nameFileLineKey ?A = nameFileLineKey (treeNodeEntry ''src/Tree.tsx'' 5 9)"
    by blast
  have "\<not> sameNameFileLine ?A (treeNodeEntry ''src/Tree.tsx'' 9 3)"
    by (simp add: sameNameFileLine_def treeNodeEntry_def)
  with same [OF n] have w3:
    "nameFileLineKey ?A \<noteq> nameFileLineKey (treeNodeEntry ''src/Tree.tsx'' 9 3)"
    by blast
  have "\<not> sameNameFileLine ?A (treeNodeEntry ''src/Other.tsx'' 5 3)"
    by (simp add: sameNameFileLine_def treeNodeEntry_def)
  with same [OF n] have w4:
    "nameFileLineKey ?A \<noteq> nameFileLineKey (treeNodeEntry ''src/Other.tsx'' 5 3)"
    by blast
  have k: "nameFileLineKey (treeNodeEntry ''src/Tree.tsx'' 9 3)
             \<notin> nameFileLineKey ` set [?A, panelEntry]"
    by code_simp
  have w5: "treeNodeEntry ''src/Tree.tsx'' 9 3
              \<in> set (getComponentChain (recursiveTree ''src/Tree.tsx:9:3''))"
    using getComponentChain_global_dedup
      [where el = "recursiveTree ''src/Tree.tsx:9:3''" and xs = "[?A, panelEntry]"
         and b = "treeNodeEntry ''src/Tree.tsx'' 9 3" and ys = "[]"] r2 k
    by blast
  have w6: "nameFileLineKey ?A = js ''TreeNode:src/Tree.tsx:5''"
    using getComponentChain_global_dedup
      [where n = "js ''TreeNode''" and f = "js ''src/Tree.tsx''" and l = 5 and k = 3]
    by (simp add: treeNodeEntry_def numToString_def natToString.simps digitChar_def)
  from c1 w1 w2 w3 w4 w5 c2 c3 w6 show ?thesis by blast
qed


text \<open>
  Claim C2. \<open>getComponentChain\<close> returns the entries innermost first and collapses
  consecutive entries with the same name and location; the claim adds that a later,
  non-consecutive recurrence of the same name and location is kept as an entry of its
  own. The function's own comment says that it removes consecutive duplicates, but the
  set \<open>seen\<close> is never reset: for the button of \<open>recursiveTree\<close>, whose chain is
  \<open>TreeNode\<close>, \<open>Panel\<close>, \<open>TreeNode\<close> with both \<open>TreeNode\<close> elements at
  \<open>src/Tree.tsx:5:3\<close>, the code returns two entries and drops the outer \<open>TreeNode\<close>.
\<close>

theorem getComponentChain_drops_nonconsecutive_repeat:
  "componentEntries (Some (recursiveTree ''src/Tree.tsx:5:3'')) =
       [\<lparr>name = js ''TreeNode'',
          location = Some \<lparr>file = js ''src/Tree.tsx'', line = 5, column = 3\<rparr>\<rparr>,
        \<lparr>name = js ''Panel'',
          location = Some \<lparr>file = js ''src/Panel.tsx'', line = 2, column = 1\<rparr>\<rparr>,
        \<lparr>name = js ''TreeNode'',
          location = Some \<lparr>file = js ''src/Tree.tsx'', line = 5, column = 3\<rparr>\<rparr>]
   \<and> getComponentChain (recursiveTree ''src/Tree.tsx:5:3'') =
       [\<lparr>name = js ''TreeNode'',
          location = Some \<lparr>file = js ''src/Tree.tsx'', line = 5, column = 3\<rparr>\<rparr>,
        \<lparr>name = js ''Panel'',
          location = Some \<lparr>file = js ''src/Panel.tsx'', line = 2, column = 1\<rparr>\<rparr>]"
  by code_simp

subsection \<open>The nearest source location\<close>

lemma findNearestSource_loop_skip:
  assumes "ancestorsOf cur = pre @ e # rest"
    and "\<forall>x\<in>set pre. \<not> truthy (getAttribute x ATTR_SOURCE)"
    and "truthy (getAttribute e ATTR_SOURCE)"
  shows "findNearestSource_loop cur = parseSourceAttr (getAttribute e ATTR_SOURCE)"
  using assms
proof (induction cur arbitrary: pre rule: findNearestSource_loop.induct)
  case 1
  then show ?case by simp
next
  case (2 t as h p)
  show ?case
  proof (cases pre)
    case Nil
    with "2.prems" have "e = Element t as h p" by simp
    with "2.prems"(3) show ?thesis by (simp add: Let_def)
  next
    case (Cons x pre')
    with "2.prems" have x: "x = Element t as h p" and rest: "ancestorsOf p = pre' @ e # rest"
      and nt: "\<not> truthy (getAttribute (Element t as h p) ATTR_SOURCE)"
      and pre': "\<forall>x\<in>set pre'. \<not> truthy (getAttribute x ATTR_SOURCE)"
      by auto
    have "findNearestSource_loop p = parseSourceAttr (getAttribute e ATTR_SOURCE)"
      by (rule "2.IH" [OF refl refl nt rest pre' "2.prems"(3)])
    with nt show ?thesis by (simp add: Let_def)
  qed
qed

lemma findNearestSource_loop_Some:
  "findNearestSource_loop cur = Some loc \<Longrightarrow>
     \<exists>x\<in>set (ancestorsOf cur). truthy (getAttribute x ATTR_SOURCE)
        \<and> parseSourceAttr (getAttribute x ATTR_SOURCE) = Some loc"
proof (induction cur rule: findNearestSource_loop.induct)
  case 1
  then show ?case by simp
next
  case (2 t as h p)
  then show ?case by (auto simp: Let_def split: if_splits)
qed

lemma parseSourceAttr_Some_truthy: "parseSourceAttr v = Some loc \<Longrightarrow> truthy v"
  by (auto simp: parseSourceAttr_def split: if_splits)

lemma self_in_ancestors: "el \<in> set (ancestorsOf (Some el))"
  by (cases el) simp

lemma inspect_elementSource:
  "elementSource (inspect toLowerCase now el) = findNearestSource el"
proof (cases "getElementSource el")
  case None
  then show ?thesis
    by (simp add: inspect_def Let_def PartialContext.defs GrabbedContext.defs)
next
  case (Some s)
  obtain t as h p where el: "el = Element t as h p" by (cases el)
  have "truthy (getAttribute el ATTR_SOURCE)"
    using Some parseSourceAttr_Some_truthy by (simp add: getElementSource_def)
  then have "findNearestSource el = Some s"
    using Some by (simp add: el findNearestSource_def getElementSource_def Let_def)
  with Some show ?thesis
    by (simp add: inspect_def Let_def PartialContext.defs GrabbedContext.defs)
qed

text \<open>
  Claim C5, as the code has it. \<open>findNearestSource\<close> and \<open>inspect\<close> return what
  \<open>parseSourceAttr\<close> makes of the nearest non-empty \<open>data-solid-source\<close> attribute on
  the chain, the element itself first. A malformed value parses to \<open>null\<close>, so when
  the nearest attribute is malformed both return \<open>null\<close>, whatever the ancestors above
  it carry; the functions are total, nothing throws.
\<close>

theorem findNearestSource_nearest_attribute:
  assumes "ancestorsOf (Some el) = pre @ e # rest"
    and "\<forall>x\<in>set pre. \<not> truthy (getAttribute x ATTR_SOURCE)"
    and "truthy (getAttribute e ATTR_SOURCE)"
  shows "findNearestSource el = parseSourceAttr (getAttribute e ATTR_SOURCE)
         \<and> elementSource (inspect toLowerCase now el) = parseSourceAttr (getAttribute e ATTR_SOURCE)"
  using findNearestSource_loop_skip [OF assms]
  by (simp add: inspect_elementSource findNearestSource_def)

theorem findNearestSource_nearest_attribute_witness:
  "findNearestSource (buttonIn (spanWith [(ATTR_SOURCE, js ''oops'')])) = None
   \<and> elementSource (inspect (\<lambda>s. s) 0 (buttonIn (spanWith [(ATTR_SOURCE, js ''oops'')]))) = None"
proof -
  let ?span = "spanWith [(ATTR_SOURCE, js ''oops'')]"
  have h1: "ancestorsOf (Some (buttonIn ?span)) = [buttonIn ?span] @ ?span # [validParent]"
    by (simp add: buttonIn_def spanWith_def validParent_def)
  have h2: "\<forall>x\<in>set [buttonIn ?span]. \<not> truthy (getAttribute x ATTR_SOURCE)"
    by (simp add: buttonIn_def getAttribute_def truthy_def)
  have h3: "truthy (getAttribute ?span ATTR_SOURCE)"
    by (simp add: spanWith_def getAttribute_def truthy_def)
  have v: "parseSourceAttr (getAttribute ?span ATTR_SOURCE) = None"
    by code_simp
  from findNearestSource_nearest_attribute [OF h1 h2 h3, of "\<lambda>s. s" 0] v
  show ?thesis by simp
qed

text \<open>
  The claim as the specification states it fails: with a malformed attribute on the
  \<open>span\<close> the well-formed attribute of its parent is not found, while without the
  attribute it is.
\<close>

theorem malformed_attribute_not_skipped_counterexample:
  "parseSourceAttr (Some (js ''oops'')) = None
   \<and> findNearestSource (spanWith [(ATTR_SOURCE, js ''oops'')]) = None
   \<and> findNearestSource (spanWith []) =
         Some \<lparr>file = js ''src/App.tsx'', line = 1, column = 1\<rparr>
   \<and> elementSource (inspect (\<lambda>s. s) 0 (spanWith [(ATTR_SOURCE, js ''oops'')])) = None
   \<and> elementSource (inspect (\<lambda>s. s) 0 (spanWith [])) =
         Some \<lparr>file = js ''src/App.tsx'', line = 1, column = 1\<rparr>"
  by code_simp

lemma getLineCol_loop_inv:
  "lo \<le> hi \<Longrightarrow> lineStarts ! lo \<le> offset \<Longrightarrow>
     lineStarts ! getLineCol_loop lineStarts offset lo hi \<le> offset"
proof (induction lineStarts offset lo hi rule: getLineCol_loop.induct)
  case (1 lineStarts offset lo hi)
  show ?case
  proof (cases "lo < hi")
    case False
    then show ?thesis using "1.prems" by (subst getLineCol_loop.simps) simp
  next
    case True
    let ?mid = "(lo + hi + 1) div 2"
    have m: "lo < ?mid" "?mid \<le> hi" using True by auto
    show ?thesis
    proof (cases "lineStarts ! ?mid \<le> offset")
      case le: True
      have "lineStarts ! getLineCol_loop lineStarts offset ?mid hi \<le> offset"
        using "1.IH"(1) [OF True refl le m(2) le] .
      then show ?thesis using True le by (subst getLineCol_loop.simps) (simp add: Let_def)
    next
      case gt: False
      have "lo \<le> ?mid - 1" using m by simp
      then have "lineStarts ! getLineCol_loop lineStarts offset lo (?mid - 1) \<le> offset"
        using "1.IH"(2) [OF True refl gt _ "1.prems"(2)] by simp
      then show ?thesis using True gt by (subst getLineCol_loop.simps) (simp add: Let_def)
    qed
  qed
qed

lemma getLineCol_positive:
  "1 \<le> fst (getLineCol (lineStartsOf code) offset)
   \<and> 1 \<le> snd (getLineCol (lineStartsOf code) offset)"
proof -
  have "lineStartsOf code ! 0 \<le> offset" by (simp add: lineStartsOf_def)
  then have "lineStartsOf code ! getLineCol_loop (lineStartsOf code) offset 0
                (length (lineStartsOf code) - 1) \<le> offset"
    by (intro getLineCol_loop_inv) simp_all
  then show ?thesis by (simp add: getLineCol_def Let_def)
qed

text \<open>
  Claim C6, as the code has it. A location returned by \<open>findNearestSource\<close>,
  \<open>getElementSource\<close> or \<open>inspect\<close> has \<open>line \<ge> 1\<close> and \<open>column \<ge> 1\<close> when every
  non-empty \<open>data-solid-source\<close> attribute on the chain has the form that the plugin
  writes, \<open>file:line:column\<close> with \<open>line \<ge> 1\<close> and \<open>column \<ge> 1\<close>; and the line and
  column that the plugin computes for an offset are both at least \<open>1\<close>.
\<close>

theorem elementSource_positive:
  assumes "\<forall>x\<in>set (ancestorsOf (Some el)). \<forall>v. getAttribute x ATTR_SOURCE = Some v \<longrightarrow> v \<noteq> [] \<longrightarrow>
             (\<exists>f l c. 1 \<le> l \<and> 1 \<le> c \<and> v = f @ js '':'' @ numToString l @ js '':'' @ numToString c)"
    and "findNearestSource el = Some loc \<or> getElementSource el = Some loc
         \<or> elementSource (inspect toLowerCase now el) = Some loc"
  shows "1 \<le> line loc \<and> 1 \<le> column loc
         \<and> 1 \<le> fst (getLineCol (lineStartsOf code) offset)
         \<and> 1 \<le> snd (getLineCol (lineStartsOf code) offset)"
proof -
  have "\<exists>x\<in>set (ancestorsOf (Some el)). truthy (getAttribute x ATTR_SOURCE)
        \<and> parseSourceAttr (getAttribute x ATTR_SOURCE) = Some loc"
    using assms(2)
  proof (elim disjE)
    assume "findNearestSource el = Some loc"
    then show ?thesis using findNearestSource_loop_Some by (simp add: findNearestSource_def)
  next
    assume g: "getElementSource el = Some loc"
    then have "truthy (getAttribute el ATTR_SOURCE)"
      using parseSourceAttr_Some_truthy by (simp add: getElementSource_def)
    with g self_in_ancestors show ?thesis by (auto simp: getElementSource_def)
  next
    assume "elementSource (inspect toLowerCase now el) = Some loc"
    then show ?thesis
      using findNearestSource_loop_Some
      by (simp add: inspect_elementSource findNearestSource_def)
  qed
  then obtain x v where x: "x \<in> set (ancestorsOf (Some el))"
    and v: "getAttribute x ATTR_SOURCE = Some v" "v \<noteq> []"
    and p: "parseSourceAttr (Some v) = Some loc"
    by (auto simp: truthy_def split: option.splits)
  from assms(1) x v obtain f l c where
    "1 \<le> l" "1 \<le> c" "v = f @ js '':'' @ numToString l @ js '':'' @ numToString c"
    by blast
  with p parseSourceAttr_format [of f l c] have "1 \<le> line loc \<and> 1 \<le> column loc"
    by auto
  with getLineCol_positive [of code offset] show ?thesis by blast
qed

theorem elementSource_positive_witness:
  "findNearestSource (spanWith []) = Some \<lparr>file = js ''src/App.tsx'', line = 1, column = 1\<rparr>
   \<and> (1::int) \<le> line \<lparr>file = js ''src/App.tsx'', line = 1, column = 1\<rparr>
   \<and> (1::int) \<le> column \<lparr>file = js ''src/App.tsx'', line = 1, column = 1\<rparr>
   \<and> 1 \<le> fst (getLineCol (lineStartsOf (js ''return <div>'')) 7)
   \<and> 1 \<le> snd (getLineCol (lineStartsOf (js ''return <div>'')) 7)"
proof -
  let ?loc = "\<lparr>file = js ''src/App.tsx'', line = 1, column = 1\<rparr>"
  have n1: "numToString 1 = js ''1''"
    by (simp add: numToString_def natToString.simps digitChar_def)
  have "js ''src/App.tsx:1:1'' = js ''src/App.tsx'' @ js '':'' @ numToString 1 @ js '':'' @ numToString 1"
    by (simp add: n1)
  then have "\<exists>f l c. (1::int) \<le> l \<and> (1::int) \<le> c
               \<and> js ''src/App.tsx:1:1'' = f @ js '':'' @ numToString l @ js '':'' @ numToString c"
    by (intro exI [of _ "js ''src/App.tsx''"] exI [of _ 1]) simp
  then have h1: "\<forall>x\<in>set (ancestorsOf (Some (spanWith []))).
           \<forall>v. getAttribute x ATTR_SOURCE = Some v \<longrightarrow> v \<noteq> [] \<longrightarrow>
             (\<exists>f l c. 1 \<le> l \<and> 1 \<le> c
                \<and> v = f @ js '':'' @ numToString l @ js '':'' @ numToString c)"
    by (simp add: spanWith_def validParent_def getAttribute_def)
  have h2: "findNearestSource (spanWith []) = Some ?loc"
    by code_simp
  from elementSource_positive [OF h1, of ?loc "\<lambda>s. s" 0 "js ''return <div>''" 7] h2
  show ?thesis by simp
qed

text \<open>
  The claim as the specification states it fails: \<open>parseSourceAttr\<close> checks only that
  the two numbers are not \<open>NaN\<close>, so an attribute \<open>src/App.tsx:0:-3\<close> gives a location
  with line \<open>0\<close> and column \<open>-3\<close>.
\<close>

theorem elementSource_not_positive_counterexample:
  "getElementSource (Element (js ''DIV'') [(ATTR_SOURCE, js ''src/App.tsx:0:-3'')] [] None)
     = Some \<lparr>file = js ''src/App.tsx'', line = 0, column = - 3\<rparr>
   \<and> findNearestSource (Element (js ''DIV'') [(ATTR_SOURCE, js ''src/App.tsx:0:-3'')] [] None)
     = Some \<lparr>file = js ''src/App.tsx'', line = 0, column = - 3\<rparr>
   \<and> elementSource (inspect (\<lambda>s. s) 0
         (Element (js ''DIV'') [(ATTR_SOURCE, js ''src/App.tsx:0:-3'')] [] None))
     = Some \<lparr>file = js ''src/App.tsx'', line = 0, column = - 3\<rparr>"
  by code_simp

section \<open>Properties of \<open>formatContext\<close>\<close>

lemma getElementSummary_tag:
  "\<exists>rest. getElementSummary toLowerCase el = js ''<'' @ toLowerCase (tagName el) @ rest"
proof -
  have j: "\<exists>rest. join (js '' '') ((a @ b) # ps) @ c = a @ b @ rest" for a b c :: jsstring and ps
    by (cases ps) auto
  have "\<exists>rest. join (js '' '') (([x] @ b) # ps) @ c = x # b @ rest" for x b c and ps
    using j [of "[x]" b ps c] by simp
  then show ?thesis
    unfolding getElementSummary_def Let_def by (simp only: append_Cons append_Nil list.map if_distrib) 
       (auto simp: Let_def)
qed

text \<open>
  Claim C9. With \<open>elementSource = null\<close> and \<open>components = []\<close>, \<open>formatContext\<close>
  pushes exactly eight lines: the opening banner, a blank line, the \<open>Element:\<close> line,
  a blank line, \<open>HTML:\<close>, the snippet, a blank line and the closing banner. There is
  no \<open>Source:\<close> line and no component-tree block with its blank line, and the
  \<open>Element:\<close> line starts with \<open><\<close> and the tag name in lower case.
\<close>

theorem formatContext_bare:
  assumes "elementSource ctx = None" and "components ctx = []"
  shows "formatContext_lines toLowerCase ctx =
           [js ''--- solid-grab context ---'', [],
            js ''Element: '' @ getElementSummary toLowerCase (element ctx),
            [], js ''HTML:'', getElementSnippet (element ctx) 500,
            [], js ''--- end solid-grab context ---'']
         \<and> formatContext toLowerCase ctx =
             js ''--- solid-grab context ---'' @ newline @ newline
             @ js ''Element: '' @ getElementSummary toLowerCase (element ctx) @ newline
             @ newline @ js ''HTML:'' @ newline @ getElementSnippet (element ctx) 500 @ newline
             @ newline @ js ''--- end solid-grab context ---''
         \<and> (\<exists>rest. getElementSummary toLowerCase (element ctx)
                       = js ''<'' @ toLowerCase (tagName (element ctx)) @ rest)"
  using assms getElementSummary_tag [of toLowerCase "element ctx"]
  by (simp add: formatContext_def formatContext_lines_def)

theorem formatContext_bare_witness:
  "formatContext (\<lambda>s. s)
       \<lparr>element = bareSpan, ctxTagName = js ''span'', elementSource = None,
          components = [], timestamp = 0\<rparr>
     = js ''--- solid-grab context ---'' @ newline @ newline
       @ js ''Element: <span>'' @ newline @ newline
       @ js ''HTML:'' @ newline @ js ''<span></span>'' @ newline @ newline
       @ js ''--- end solid-grab context ---''"
  using formatContext_bare [of "\<lparr>element = bareSpan, ctxTagName = js ''span'',
          elementSource = None, components = [], timestamp = 0\<rparr>" "\<lambda>s. s"]
  by (simp add: bareSpan_def getElementSummary_def getElementSnippet_def elementId_def
      className_def getAttribute_def truthy_def)


section \<open>Properties of the JSX transform\<close>

subsection \<open>The backward scan\<close>






subsection \<open>The transform as a list of insertions\<close>

lemma matchAt_text:
  assumes "matchAt code p = Some m"
  shows "\<exists>rest. drop p code = prefix m @ matchTagName m @ suffix m @ rest"
proof -
  from assms have p: "p < length code" and lt: "code ! p = of_char CHR ''<''"
    unfolding matchAt_def by (auto split: if_splits)
  define r where "r = drop (p + 1) code"
  define w where "w = takeWhile isWhiteSpace r"
  have d: "drop p code = of_char CHR ''<'' # r"
    using p lt by (simp add: r_def Cons_nth_drop_Suc [symmetric])
  from assms obtain c rest2 where r1: "dropWhile isWhiteSpace r = c # rest2"
    unfolding matchAt_def Let_def r_def [symmetric]
    by (auto split: if_splits list.splits)
  define t where "t = takeWhile isTagChar rest2"
  from assms r1 obtain s rest3 where r2: "dropWhile isTagChar rest2 = s # rest3"
    unfolding matchAt_def Let_def r_def [symmetric]
    by (auto split: if_splits list.splits)
  have "r = w @ dropWhile isWhiteSpace r" by (simp add: w_def)
  moreover have "rest2 = t @ dropWhile isTagChar rest2" by (simp add: t_def)
  ultimately have e1: "r = w @ c # t @ s # rest3"
    by (simp add: r1 r2)
  from assms r1 r2 have pm: "prefix m = of_char CHR ''<'' # w"
    and tm: "matchTagName m = c # t"
    and sm: "suffix m = [s] \<or> (suffix m = s # [hd rest3] \<and> rest3 \<noteq> [])"
    unfolding matchAt_def Let_def r_def [symmetric] w_def t_def
    by (auto split: if_splits)
  from sm show ?thesis
  proof
    assume "suffix m = [s]"
    then show ?thesis using d e1 pm tm by simp
  next
    assume a: "suffix m = s # [hd rest3] \<and> rest3 \<noteq> []"
    then obtain g rest4 where "rest3 = g # rest4" by (cases rest3) auto
    with a show ?thesis using d e1 pm tm by simp
  qed
qed

lemma exec_text:
  assumes "exec code p = Some m"
  shows "\<exists>rest. drop (index m) code = prefix m @ matchTagName m @ suffix m @ rest"
  using exec_Some [OF assms] matchAt_text by blast

lemma drop_eq_append_slice:
  assumes "drop p code = x @ rest"
  shows "slice_str code p (p + length x) = x" and "drop (p + length x) code = rest"
proof -
  show "slice_str code p (p + length x) = x" by (simp add: slice_str_def assms)
  have "drop (length x) (drop p code) = rest" by (simp add: assms)
  then show "drop (p + length x) code = rest" by (simp add: add.commute)
qed

lemma drop_eq_append_bound:
  assumes "drop p code = x @ rest" and "x \<noteq> []"
  shows "p + length x \<le> length code"
proof -
  have a: "length code - p = length x + length rest"
    using arg_cong [OF assms(1), of length] by simp
  have b: "0 < length x" using assms(2) by simp
  from a b show ?thesis by linarith
qed

lemma slice_append: "a \<le> b \<Longrightarrow> b \<le> c \<Longrightarrow> slice_str code a b @ slice_str code b c = slice_str code a c"
proof -
  assume ab: "a \<le> b" and bc: "b \<le> c"
  have "take ((b - a) + (c - b)) (drop a code)
          = take (b - a) (drop a code) @ take (c - b) (drop (b - a) (drop a code))"
    by (rule take_add)
  with ab bc show ?thesis by (simp add: slice_str_def)
qed

lemma slice_drop: "a \<le> b \<Longrightarrow> slice_str code a b @ drop b code = drop a code"
proof -
  assume ab: "a \<le> b"
  have "take (b - a) (drop a code) @ drop (b - a) (drop a code) = drop a code"
    by (rule append_take_drop_id)
  with ab show ?thesis by (simp add: slice_str_def)
qed

lemma slice_insertAll:
  assumes "a \<le> b" and "\<forall>x\<in>set sites. b \<le> fst x"
  shows "slice_str code a b @ insertAll code b sites = insertAll code a sites"
proof (cases sites)
  case Nil
  then show ?thesis using assms(1) by (simp add: slice_drop)
next
  case (Cons x rest)
  obtain pos s where x: "x = (pos, s)" by (cases x)
  with Cons assms(2) have "b \<le> pos" by simp
  with assms(1) have "slice_str code a b @ slice_str code b pos = slice_str code a pos"
    by (rule slice_append)
  then show ?thesis using Cons x by simp
qed

lemma allMatches_index_ge: "m \<in> set (allMatches code p) \<Longrightarrow> p \<le> index m"
proof (induction code p rule: allMatches.induct)
  case (1 code p)
  show ?case
  proof (cases "exec code p")
    case None
    with "1.prems" show ?thesis by (subst (asm) allMatches.simps) simp
  next
    case (Some m')
    with "1.prems" have "m = m' \<or> m \<in> set (allMatches code (matchEnd m'))"
      by (subst (asm) allMatches.simps) simp
    then show ?thesis
    proof
      assume "m = m'"
      with Some exec_Some show ?thesis by blast
    next
      assume "m \<in> set (allMatches code (matchEnd m'))"
      with "1.IH" Some have "matchEnd m' \<le> index m" by simp
      with exec_progress [OF Some] show ?thesis by simp
    qed
  qed
qed

lemma tagNameEnd_bounds: "index m \<le> tagNameEnd m \<and> tagNameEnd m \<le> matchEnd m"
  by (simp add: tagNameEnd_def matchEnd_def fullMatch_def)

lemma transformJsx_loop_insertAll:
  assumes "lastIndex \<le> p"
  shows "transformJsx_loop opts shortFile (lineStartsOf code) code p result lastIndex =
     result @ insertAll code lastIndex
       (map (\<lambda>m. (tagNameEnd m, attrString opts shortFile code m))
          (filter (isInjectionSite opts shortFile code) (allMatches code p)))"
  using assms
proof (induction opts shortFile "lineStartsOf code" code p result lastIndex
    rule: transformJsx_loop.induct)
  case (1 opts shortFile code p result lastIndex)
  let ?sites = "\<lambda>q. map (\<lambda>m. (tagNameEnd m, attrString opts shortFile code m))
          (filter (isInjectionSite opts shortFile code) (allMatches code q))"
  show ?case
  proof (cases "exec code p")
    case None
    then show ?thesis
      by (subst transformJsx_loop.simps, subst allMatches.simps) simp
  next
    case (Some m)
    have am: "allMatches code p = m # allMatches code (matchEnd m)"
      using Some by (subst allMatches.simps) simp
    from exec_progress [OF Some] "1.prems" have le: "lastIndex \<le> matchEnd m" by simp
    from exec_Some [OF Some] "1.prems" have li: "lastIndex \<le> index m" by simp
    have later: "\<forall>x\<in>set (?sites (matchEnd m)). matchEnd m \<le> fst x"
      using allMatches_index_ge [of _ code "matchEnd m"] tagNameEnd_bounds
      by (auto intro: order_trans)
    from exec_text [OF Some] obtain rest where
      mt: "drop (index m) code = prefix m @ matchTagName m @ suffix m @ rest" by blast
    show ?thesis
    proof (cases "isLikelyJsx code (index m)")
      case False
      then have "transformJsx_loop opts shortFile (lineStartsOf code) code p result lastIndex
        = transformJsx_loop opts shortFile (lineStartsOf code) code (matchEnd m) result lastIndex"
        using Some by (subst transformJsx_loop.simps) simp
      also have "\<dots> = result @ insertAll code lastIndex (?sites (matchEnd m))"
        using "1.hyps"(1) [OF Some _ le] False by simp
      finally show ?thesis using False by (simp add: am isInjectionSite_def)
    next
      case True
      note likely = True
      show ?thesis
      proof (cases "buildAttrs opts shortFile (lineStartsOf code) m = []")
        case True
        note e = True
        have "transformJsx_loop opts shortFile (lineStartsOf code) code p result lastIndex
          = transformJsx_loop opts shortFile (lineStartsOf code) code (matchEnd m)
              (result @ slice_str code lastIndex (matchEnd m)) (matchEnd m)"
          using Some likely e by (subst transformJsx_loop.simps) simp
        also have "\<dots> = (result @ slice_str code lastIndex (matchEnd m))
                          @ insertAll code (matchEnd m) (?sites (matchEnd m))"
          using "1.hyps"(2) [OF Some _ refl _ order_refl] likely e by simp
        also have "\<dots> = result @ insertAll code lastIndex (?sites (matchEnd m))"
          using slice_insertAll [OF le later] by simp
        finally show ?thesis using e by (simp add: am isInjectionSite_def)
      next
        case False
        note ne = False
        let ?a = "attrString opts shortFile code m"
        have "transformJsx_loop opts shortFile (lineStartsOf code) code p result lastIndex
          = transformJsx_loop opts shortFile (lineStartsOf code) code (matchEnd m)
              (result @ slice_str code lastIndex (index m)
                 @ prefix m @ matchTagName m @ ?a @ suffix m) (matchEnd m)"
          using Some likely ne
          by (subst transformJsx_loop.simps) (simp add: attrString_def Let_def)
        also have "\<dots> = (result @ slice_str code lastIndex (index m)
                 @ prefix m @ matchTagName m @ ?a @ suffix m)
                          @ insertAll code (matchEnd m) (?sites (matchEnd m))"
          using "1.hyps"(3) [OF Some _ refl _ refl order_refl] likely ne
          by (simp add: attrString_def)
        also have "\<dots> = result @ slice_str code lastIndex (tagNameEnd m) @ ?a
                          @ insertAll code (tagNameEnd m) (?sites (matchEnd m))"
        proof -
          have t1: "drop (index m) code = (prefix m @ matchTagName m) @ (suffix m @ rest)"
            using mt by simp
          have s1: "slice_str code (index m) (tagNameEnd m) = prefix m @ matchTagName m"
            using drop_eq_append_slice(1) [OF t1] by (simp add: tagNameEnd_def add.assoc)
          have d1: "drop (tagNameEnd m) code = suffix m @ rest"
            using drop_eq_append_slice(2) [OF t1] by (simp add: tagNameEnd_def add.assoc)
          have s2: "slice_str code (tagNameEnd m) (matchEnd m) = suffix m"
            using drop_eq_append_slice(1) [OF d1]
            by (simp add: tagNameEnd_def matchEnd_def fullMatch_def add.assoc)
          have "slice_str code lastIndex (index m) @ slice_str code (index m) (tagNameEnd m)
                  = slice_str code lastIndex (tagNameEnd m)"
            using li tagNameEnd_bounds by (intro slice_append) auto
          moreover have "slice_str code (tagNameEnd m) (matchEnd m)
                   @ insertAll code (matchEnd m) (?sites (matchEnd m))
                 = insertAll code (tagNameEnd m) (?sites (matchEnd m))"
            using tagNameEnd_bounds later by (intro slice_insertAll) auto
          ultimately show ?thesis by (simp add: s1 s2)
        qed
        finally show ?thesis using likely ne by (simp add: am isInjectionSite_def)
      qed
    qed
  qed
qed

lemma ascending_weaken: "ascending b sites \<Longrightarrow> a \<le> b \<Longrightarrow> ascending a sites"
  by (cases sites) auto

lemma length_insertAll:
  assumes "ascending start sites" and "\<forall>x\<in>set sites. fst x \<le> length code"
    and "start \<le> length code"
  shows "length (insertAll code start sites)
           = length code - start + sum_list (map (\<lambda>x. length (snd x)) sites)"
  using assms
proof (induction sites arbitrary: start)
  case Nil
  then show ?case by simp
next
  case (Cons x sites)
  obtain pos s where x: "x = (pos, s)" by (cases x)
  with Cons.prems have a: "start \<le> pos" "ascending pos sites" "pos \<le> length code"
    "\<forall>x\<in>set sites. fst x \<le> length code"
    by auto
  have "length (insertAll code pos sites)
          = length code - pos + sum_list (map (\<lambda>x. length (snd x)) sites)"
    using Cons.IH [OF a(2) a(4) a(3)] .
  moreover have "length (slice_str code start pos) = pos - start"
    using a(1,3) by (simp add: slice_str_def)
  ultimately show ?case using a(1,3) by (simp add: x)
qed

lemma allMatches_exec: "m \<in> set (allMatches code p) \<Longrightarrow> \<exists>q. exec code q = Some m"
proof (induction code p rule: allMatches.induct)
  case (1 code p)
  show ?case
  proof (cases "exec code p")
    case None
    with "1.prems" show ?thesis by (subst (asm) allMatches.simps) simp
  next
    case (Some m')
    with "1.prems" have "m = m' \<or> m \<in> set (allMatches code (matchEnd m'))"
      by (subst (asm) allMatches.simps) simp
    with "1.IH" Some show ?thesis by blast
  qed
qed

lemma allMatches_end_le:
  assumes "m \<in> set (allMatches code p)"
  shows "matchEnd m \<le> length code"
proof -
  from allMatches_exec [OF assms] obtain q where q: "exec code q = Some m" by blast
  from exec_text [OF q] obtain rest where
    t: "drop (index m) code = prefix m @ matchTagName m @ suffix m @ rest" by blast
  have d: "drop (index m) code = fullMatch m @ rest"
    unfolding fullMatch_def using t by simp
  have "matchAt code (index m) = Some m" using exec_Some [OF q] by simp
  then have "0 < length (prefix m)" using matchAt_Some by blast
  then have ne: "fullMatch m \<noteq> []" unfolding fullMatch_def by simp
  show ?thesis
    unfolding matchEnd_def using d ne by (rule drop_eq_append_bound)
qed

lemma ascending_sites:
  "ascending p (map (\<lambda>m. (tagNameEnd m, f m)) (filter Q (allMatches code p)))"
proof (induction code p rule: allMatches.induct)
  case (1 code p)
  show ?case
  proof (cases "exec code p")
    case None
    then show ?thesis by (subst allMatches.simps) simp
  next
    case (Some m)
    have am: "allMatches code p = m # allMatches code (matchEnd m)"
      using Some by (subst allMatches.simps) simp
    have ih: "ascending (matchEnd m)
        (map (\<lambda>m. (tagNameEnd m, f m)) (filter Q (allMatches code (matchEnd m))))"
      using "1.IH" Some by simp
    have b: "p \<le> index m" "index m \<le> tagNameEnd m" "tagNameEnd m \<le> matchEnd m"
      using exec_Some [OF Some] tagNameEnd_bounds by auto
    show ?thesis
    proof (cases "Q m")
      case True
      with b ascending_weaken [OF ih b(3)] show ?thesis by (simp add: am)
    next
      case False
      from b have "p \<le> matchEnd m" by simp
      with False ascending_weaken [OF ih] show ?thesis by (simp add: am)
    qed
  qed
qed

lemma transformJsx_injections:
  "transformJsx code fileId opts = insertAll code 0 (injections opts fileId code)"
  by (simp add: transformJsx_def Let_def transformJsx_loop_insertAll injections_def
      injectionSites_def)

lemma length_transformJsx:
  "length (transformJsx code fileId opts)
     = length code + sum_list (map (\<lambda>x. length (snd x)) (injections opts fileId code))"
proof -
  have "ascending 0 (injections opts fileId code)"
    unfolding injections_def injectionSites_def by (rule ascending_sites)
  moreover have "\<forall>x\<in>set (injections opts fileId code). fst x \<le> length code"
    using allMatches_end_le [of _ code 0] tagNameEnd_bounds
    by (auto simp: injections_def injectionSites_def intro: order_trans)
  ultimately show ?thesis
    using length_insertAll [of 0 "injections opts fileId code" code]
    by (simp add: transformJsx_injections)
qed

lemma transformJsx_no_sites:
  "injectionSites opts fileId code = [] \<Longrightarrow> transformJsx code fileId opts = code"
  by (simp add: transformJsx_injections injections_def)

lemma transformJsx_some_site:
  assumes "injectionSites opts fileId code \<noteq> []"
  shows "transformJsx code fileId opts \<noteq> code"
proof -
  from assms obtain m ms where ms: "injectionSites opts fileId code = m # ms"
    by (cases "injectionSites opts fileId code") auto
  have "0 < length (attrString opts (stripLeadingSlash fileId) code m)"
    by (simp add: attrString_def)
  then have "length code < length (transformJsx code fileId opts)"
    by (simp add: length_transformJsx injections_def ms)
  then show ?thesis by auto
qed



subsection \<open>The claims about the transform\<close>








text \<open>
  Claim C7. When the scan of a file finds no injection site, \<open>transformJsx\<close> returns the
  text itself and \<open>transform\<close> returns \<open>null\<close>; a file that holds only
  \<open>const x: Accessor<boolean> = () => true;\<close> has no candidate at all. When there is at
  least one injection site (in development mode, for a \<open>.jsx\<close> or \<open>.tsx\<close> file outside
  \<open>node_modules\<close>), the transformed text differs from the input and \<open>transform\<close>
  returns it.
\<close>

theorem transform_unchanged_signal:
  \<open>(injectionSites (options plugin) (relativePathOf plugin ident) code = []
       \<longrightarrow> transform plugin code ident = None)
   \<and> (injectionSites (options plugin) (relativePathOf plugin ident) code = []
       \<longrightarrow> transformJsx code (relativePathOf plugin ident) (options plugin) = code)
   \<and> (isDev plugin \<and> isJsxFile ident \<and> \<not> includes_str ident (js ''node_modules'')
       \<and> injectionSites (options plugin) (relativePathOf plugin ident) code \<noteq> []
       \<longrightarrow> transformJsx code (relativePathOf plugin ident) (options plugin) \<noteq> code
         \<and> transform plugin code ident
             = Some (transformJsx code (relativePathOf plugin ident) (options plugin)))
   \<and> exec (js ''const x: Accessor<boolean> = () => true;'') 0 = None
   \<and> transform (devPlugin defaultOptions) (js ''const x: Accessor<boolean> = () => true;'')
         (js ''/project/src/hooks.tsx'') = None\<close>
proof -
  let ?rel = "relativePathOf plugin ident"
  have a: "injectionSites (options plugin) ?rel code = []
             \<longrightarrow> transformJsx code ?rel (options plugin) = code"
    using transformJsx_no_sites by blast
  then have b: "injectionSites (options plugin) ?rel code = []
             \<longrightarrow> transform plugin code ident = None"
    by (simp add: transform_def Let_def)
  have c: "isDev plugin \<and> isJsxFile ident \<and> \<not> includes_str ident (js ''node_modules'')
       \<and> injectionSites (options plugin) ?rel code \<noteq> []
       \<longrightarrow> transformJsx code ?rel (options plugin) \<noteq> code
         \<and> transform plugin code ident = Some (transformJsx code ?rel (options plugin))"
    using transformJsx_some_site [of "options plugin" ?rel code]
    by (simp add: transform_def Let_def)
  have e: \<open>exec (js ''const x: Accessor<boolean> = () => true;'') 0 = None
   \<and> transform (devPlugin defaultOptions) (js ''const x: Accessor<boolean> = () => true;'')
         (js ''/project/src/hooks.tsx'') = None\<close>
    by code_simp
  from a b c e show ?thesis by blast
qed

theorem transform_unchanged_signal_witness:
  \<open>injectionSites defaultOptions (js ''src/hooks.tsx'')
       (js ''const x: Accessor<boolean> = () => true;'') = []
   \<and> transform (devPlugin defaultOptions) (js ''const x: Accessor<boolean> = () => true;'')
         (js ''/project/src/hooks.tsx'') = None
   \<and> injectionSites defaultOptions (js ''src/App.tsx'') (js ''return <div>hello</div>;'') \<noteq> []
   \<and> transform (devPlugin defaultOptions) (js ''return <div>hello</div>;'')
         (js ''/project/src/App.tsx'')
       = Some (js ''return <div data-solid-source="src/App.tsx:1:8">hello</div>;'')\<close>
proof -
  let ?p = "devPlugin defaultOptions"
  have r1: "relativePathOf ?p (js ''/project/src/hooks.tsx'') = js ''src/hooks.tsx''"
    and r2: "relativePathOf ?p (js ''/project/src/App.tsx'') = js ''src/App.tsx''"
    and o: "options ?p = defaultOptions"
    by (simp_all add: relativePathOf_def devPlugin_def startsWith_def)
  have s1: "injectionSites defaultOptions (js ''src/hooks.tsx'')
       (js ''const x: Accessor<boolean> = () => true;'') = []"
    by code_simp
  have s2: "injectionSites defaultOptions (js ''src/App.tsx'') (js ''return <div>hello</div>;'') \<noteq> []"
    by code_simp
  have g: "isDev ?p \<and> isJsxFile (js ''/project/src/App.tsx'')
           \<and> \<not> includes_str (js ''/project/src/App.tsx'') (js ''node_modules'')"
    by code_simp
  have t: \<open>transformJsx (js ''return <div>hello</div>;'') (js ''src/App.tsx'') defaultOptions
       = js ''return <div data-solid-source="src/App.tsx:1:8">hello</div>;''\<close>
    by code_simp
  have n: "transform ?p (js ''const x: Accessor<boolean> = () => true;'')
         (js ''/project/src/hooks.tsx'') = None"
    using transform_unchanged_signal
      [of ?p "js ''/project/src/hooks.tsx''" "js ''const x: Accessor<boolean> = () => true;''"]
      s1 unfolding r1 o by blast
  have "transform ?p (js ''return <div>hello</div>;'') (js ''/project/src/App.tsx'')
       = Some (transformJsx (js ''return <div>hello</div>;'') (js ''src/App.tsx'') defaultOptions)"
    using transform_unchanged_signal
      [of ?p "js ''/project/src/App.tsx''" "js ''return <div>hello</div>;''"]
      s2 g unfolding r2 o by blast
  with t s1 s2 n show ?thesis by simp
qed

lemma buildAttrs_source_only:
  \<open>buildAttrs \<lparr>jsxLocation = True, componentLocation = False\<rparr> shortFile lineStarts m
     = [js ''data-solid-source="'' @ shortFile @ js '':''
        @ numToString (fst (getLineCol lineStarts (index m))) @ js '':''
        @ numToString (snd (getLineCol lineStarts (index m))) @ js ''"'']\<close>
  by (simp add: buildAttrs_def Let_def split: prod.splits)

text \<open>
  Claim C8. With \<open>componentLocation: false\<close> and \<open>jsxLocation: true\<close> the attributes built
  for a match are the \<open>data-solid-source\<close> attribute alone, whatever the tag name, and
  \<open>transformJsx\<close> returns the text with that one attribute inserted after the tag name
  of every match confirmed by \<open>isLikelyJsx\<close>, and nothing else inserted: no
  \<open>data-solid-component\<close> anywhere. \<open><MyComponent />\<close>, a component-like tag, gets its
  \<open>data-solid-source\<close>.
\<close>

theorem componentLocation_disabled:
  \<open>buildAttrs \<lparr>jsxLocation = True, componentLocation = False\<rparr> shortFile lineStarts m
     = [js ''data-solid-source="'' @ shortFile @ js '':''
        @ numToString (fst (getLineCol lineStarts (index m))) @ js '':''
        @ numToString (snd (getLineCol lineStarts (index m))) @ js ''"'']
   \<and> transformJsx code fileId \<lparr>jsxLocation = True, componentLocation = False\<rparr>
     = insertAll code 0
         (map (\<lambda>m. (tagNameEnd m,
                     js '' data-solid-source="'' @ stripLeadingSlash fileId @ js '':''
                     @ numToString (fst (getLineCol (lineStartsOf code) (index m))) @ js '':''
                     @ numToString (snd (getLineCol (lineStartsOf code) (index m))) @ js ''"''))
            (filter (\<lambda>m. isLikelyJsx code (index m)) (allMatches code 0)))
   \<and> COMPONENT_NAME_RE_test (js ''MyComponent'')
   \<and> transformJsx (js ''<MyComponent />'') (js ''App.tsx'')
         \<lparr>jsxLocation = True, componentLocation = False\<rparr>
     = js ''<MyComponent data-solid-source="App.tsx:1:1" />''\<close>
proof -
  let ?o = "\<lparr>jsxLocation = True, componentLocation = False\<rparr>"
  have s: "isInjectionSite ?o sf code = (\<lambda>m. isLikelyJsx code (index m))" for sf
    by (rule ext) (simp add: isInjectionSite_def buildAttrs_source_only)
  have a: "attrString ?o sf code m = js '' data-solid-source=\"'' @ sf @ js '':''
                     @ numToString (fst (getLineCol (lineStartsOf code) (index m))) @ js '':''
                     @ numToString (snd (getLineCol (lineStartsOf code) (index m))) @ js ''\"''" for sf m
    by (simp add: attrString_def buildAttrs_source_only)
  have t: \<open>transformJsx code fileId ?o
     = insertAll code 0
         (map (\<lambda>m. (tagNameEnd m,
                     js '' data-solid-source="'' @ stripLeadingSlash fileId @ js '':''
                     @ numToString (fst (getLineCol (lineStartsOf code) (index m))) @ js '':''
                     @ numToString (snd (getLineCol (lineStartsOf code) (index m))) @ js ''"''))
            (filter (\<lambda>m. isLikelyJsx code (index m)) (allMatches code 0)))\<close>
    unfolding transformJsx_injections injections_def injectionSites_def s a ..
  have e: \<open>COMPONENT_NAME_RE_test (js ''MyComponent'')
   \<and> transformJsx (js ''<MyComponent />'') (js ''App.tsx'') ?o
     = js ''<MyComponent data-solid-source="App.tsx:1:1" />''\<close>
    by code_simp
  from buildAttrs_source_only [of shortFile lineStarts m] t e show ?thesis by blast
qed


end
